(* ===== verification/Prelude.thy ===== *)
theory Prelude
  imports Complex_Main "HOL-Library.Word" "HOL-Library.AList" "HOL-Library.Multiset"
begin

text \<open>
  Shared vocabulary of the market-data development: the types that stand for the Rust
  types of \<^verbatim>\<open>src/backend-sse/src\<close>, the decimal rendering used by the
  \<^verbatim>\<open>format!\<close> calls, and the generic lemmas on association lists, multisets and
  words that the component theories share.
  \<^item> \<open>f64\<close> prices (and the \<^verbatim>\<open>OrderedFloat\<close> key wrapper) are \<open>real\<close>: exact
    arithmetic, no NaN and no rounding error;
  \<^item> \<open>u64\<close> and \<open>u32\<close> are \<open>64 word\<close> and \<open>32 word\<close>, so that \<open>+\<close>, \<open>*\<close> and
    \<open>as\<close> casts wrap as in a release build;
  \<^item> \<^verbatim>\<open>DateTime<Utc>\<close> is an \<open>int\<close> count of milliseconds, and every call of
    \<^verbatim>\<open>Utc::now()\<close> becomes an explicit \<open>now\<close> argument;
  \<^item> a \<^verbatim>\<open>HashMap\<close> or \<^verbatim>\<open>DashMap\<close> is an association list with distinct keys
    (its iteration order, unspecified in Rust, is the list order).
\<close>

type_synonym ordered_float = real
type_synonym u64 = "64 word"
type_synonym u32 = "32 word"
type_synonym millis = int

named_theorems ladder_simps "rewrite rules of the price-ladder operations"
named_theorems book_simps "rewrite rules of the order-book operations"

text \<open>\<open>map.entry(k).or_insert_with(Vec::new).push(v)\<close> on a map of vectors.\<close>

definition push_entry :: "'k \<Rightarrow> 'v \<Rightarrow> ('k \<times> 'v list) list \<Rightarrow> ('k \<times> 'v list) list" where
  "push_entry k v al = AList.update k ((case map_of al k of None \<Rightarrow> [] | Some vs \<Rightarrow> vs) @ [v]) al"

subsection \<open>Decimal rendering, as \<^verbatim>\<open>format!("{}", n)\<close> prints an unsigned integer\<close>

definition digit_char :: "nat \<Rightarrow> char" where
  "digit_char d = char_of (48 + d)"

fun string_of_nat :: "nat \<Rightarrow> string" where
  "string_of_nat n =
     (if n < 10 then [digit_char n] else string_of_nat (n div 10) @ [digit_char (n mod 10)])"

declare string_of_nat.simps [simp del]

text \<open>Reading a digit string back, the inverse the round trip of \<open>string_of_nat\<close> is stated against.\<close>

definition digits_value :: "string \<Rightarrow> nat" where
  "digits_value cs = foldl (\<lambda>n c. 10 * n + (of_char c - 48)) 0 cs"

lemma string_of_nat_not_Nil [simp]: "string_of_nat n \<noteq> []"
  by (subst string_of_nat.simps) simp

lemma digits_value_snoc: "digits_value (cs @ [c]) = 10 * digits_value cs + (of_char c - 48)"
  by (simp add: digits_value_def)

lemma digit_char_value: "d < 10 \<Longrightarrow> of_char (digit_char d) - 48 = d"
  by (simp add: digit_char_def)

lemma digits_value_string_of_nat: "digits_value (string_of_nat n) = n"
proof (induction n rule: string_of_nat.induct)
  case (1 n)
  show ?case
  proof (cases "n < 10")
    case True
    then show ?thesis
      by (subst string_of_nat.simps) (simp add: digits_value_def digit_char_value)
  next
    case False
    then have "digits_value (string_of_nat n)
                 = 10 * digits_value (string_of_nat (n div 10)) + n mod 10"
      by (subst string_of_nat.simps) (simp add: digits_value_snoc digit_char_value)
    with 1 False show ?thesis by simp
  qed
qed

lemma string_of_nat_inj: "string_of_nat m = string_of_nat n \<longleftrightarrow> m = n"
  by (metis digits_value_string_of_nat)

subsection \<open>Association lists with distinct keys\<close>

lemma map_of_Some_in_set:
  "distinct (map fst al) \<Longrightarrow> map_of al k = Some v \<longleftrightarrow> (k, v) \<in> set al"
  by (auto intro: map_of_is_SomeI dest: map_of_SomeD)

lemma map_of_None_iff: "map_of al k = None \<longleftrightarrow> k \<notin> fst ` set al"
  by (simp add: map_of_eq_None_iff)

lemma in_keys_iff: "k \<in> fst ` set al \<longleftrightarrow> (\<exists>v. map_of al k = Some v)"
  by (metis map_of_eq_None_iff not_Some_eq)

lemma in_set_delete:
  "distinct (map fst al) \<Longrightarrow> x \<in> set (AList.delete k al) \<longleftrightarrow> x \<in> set al \<and> fst x \<noteq> k"
  by (induction al) auto

lemma in_set_update:
  "distinct (map fst al) \<Longrightarrow>
   x \<in> set (AList.update k v al) \<longleftrightarrow> x = (k, v) \<or> (x \<in> set al \<and> fst x \<noteq> k)"
  by (induction al) auto

lemma delete_filter: "AList.delete k al = filter (\<lambda>x. fst x \<noteq> k) al"
  by (induction al) auto

lemma length_delete_distinct:
  "distinct (map fst al) \<Longrightarrow> length al \<le> Suc (length (AList.delete k al))"
  by (induction al) (auto simp: delete_id)

lemma length_update_ge: "length al \<le> length (AList.update k v al)"
  by (induction al) auto

lemma map_of_push_entry:
  "map_of (push_entry k v al) = (map_of al)(k \<mapsto> (case map_of al k of None \<Rightarrow> [] | Some vs \<Rightarrow> vs) @ [v])"
  by (simp add: push_entry_def update_conv')

lemma keys_push_entry: "fst ` set (push_entry k v al) = insert k (fst ` set al)"
  by (simp add: push_entry_def dom_update)

lemma distinct_push_entry: "distinct (map fst al) \<Longrightarrow> distinct (map fst (push_entry k v al))"
  by (simp add: push_entry_def distinct_update)

lemma in_push_entry:
  "(k', v') \<in> set (push_entry k s L) \<Longrightarrow> distinct (map fst L) \<Longrightarrow>
   (k' = k \<and> (\<exists>v. v' = v @ [s] \<and> (v = [] \<or> (k, v) \<in> set L))) \<or> ((k', v') \<in> set L \<and> k' \<noteq> k)"
  by (auto simp: push_entry_def in_set_update split: option.splits dest: map_of_SomeD)

lemma update_absent: "k \<notin> fst ` set al \<Longrightarrow> AList.update k v al = al @ [(k, v)]"
  by (induction al) auto

subsection \<open>Multisets of list elements\<close>

lemma sum_list_map_mset_eq:
  "mset xs = mset ys \<Longrightarrow> sum_list (map f xs) = sum_list (map f ys)"
  for f :: "'a \<Rightarrow> 'b::comm_monoid_add"
proof -
  assume eq: "mset xs = mset ys"
  have "sum_list (map f xs) = sum_mset (image_mset f (mset xs))"
    by (simp flip: sum_mset_sum_list)
  also have "\<dots> = sum_list (map f ys)"
    by (simp add: eq flip: sum_mset_sum_list)
  finally show ?thesis .
qed

lemma mset_filter_neq_absent:
  "x \<notin> set xs \<Longrightarrow> filter (\<lambda>y. y \<noteq> x) xs = xs"
  by (induction xs) auto

lemma mset_filter_neq_distinct:
  "distinct xs \<Longrightarrow> x \<in> set xs \<Longrightarrow> mset (filter (\<lambda>y. y \<noteq> x) xs) = mset xs - {#x#}"
  by (induction xs) (auto simp: mset_filter_neq_absent simp del: mset_filter)


subsection \<open>Words\<close>

text \<open>A counter below some bound can be incremented without wrapping.\<close>

lemma unat_inc_of_less: "i < m \<Longrightarrow> unat (i + 1) = Suc (unat i)" for i m :: "'a::len word"
  by unat_arith

end
