(* ===== verification/Ladder.thy ===== *)
theory Ladder
  imports Prelude
begin

text \<open>
  The price ladder of one side of an order book: the Rust field
  \<^verbatim>\<open>BTreeMap<OrderedFloat, Vec<String>>\<close> of \<^verbatim>\<open>OrderBook\<close>
  (\<^verbatim>\<open>src/backend-sse/src/order_book.rs\<close>), modelled as an association list whose keys
  ascend strictly, which is the in-order content of the B-tree. Each entry is a price and
  the FIFO queue of order ids resting at that price.
\<close>

type_synonym ladder = "(ordered_float \<times> string list) list"

text \<open>
  \<open>entry(price_key).or_insert_with(Vec::new).push(order_id)\<close>: the id joins the end
  of the queue at its price, or a new one-element queue is made at that price.
\<close>

fun ladder_push :: "ordered_float \<Rightarrow> string \<Rightarrow> ladder \<Rightarrow> ladder" where
  "ladder_push p i [] = [(p, [i])]"
| "ladder_push p i ((q, ids) # L) =
     (if p < q then (p, [i]) # (q, ids) # L
      else if p = q then (q, ids @ [i]) # L
      else (q, ids) # ladder_push p i L)"

text \<open>
  \<open>if let Some(v) = get_mut(&price_key) { v.retain(|id| id != order_id);
  if v.is_empty() { remove(&price_key) } }\<close>: nothing happens when the price is absent.
\<close>

fun ladder_remove :: "ordered_float \<Rightarrow> string \<Rightarrow> ladder \<Rightarrow> ladder" where
  "ladder_remove p i [] = []"
| "ladder_remove p i ((q, ids) # L) =
     (if p = q then
        (let ids' = filter (\<lambda>x. x \<noteq> i) ids in if ids' = [] then L else (q, ids') # L)
      else (q, ids) # ladder_remove p i L)"

text \<open>\<open>keys().next_back()\<close> and \<open>keys().next()\<close>: the highest and the lowest price.\<close>

definition ladder_last_key :: "ladder \<Rightarrow> ordered_float option" where
  "ladder_last_key L = (if L = [] then None else Some (fst (last L)))"

definition ladder_first_key :: "ladder \<Rightarrow> ordered_float option" where
  "ladder_first_key L = (case L of [] \<Rightarrow> None | (p, _) # _ \<Rightarrow> Some p)"

subsection \<open>Abstraction and well-formedness\<close>

text \<open>
  Well-formed: the keys ascend strictly (the B-tree order) and no price keeps an empty
  queue (the code removes a key as soon as its queue empties).
\<close>

definition ladder_wf :: "ladder \<Rightarrow> bool" where
  "ladder_wf L \<longleftrightarrow> sorted_wrt (<) (map fst L) \<and> (\<forall>(p, ids) \<in> set L. ids \<noteq> [])"

text \<open>The resting (price, id) pairs of a ladder, in iteration order.\<close>

fun ladder_pairs :: "ladder \<Rightarrow> (ordered_float \<times> string) list" where
  "ladder_pairs [] = []"
| "ladder_pairs ((p, ids) # L) = map (Pair p) ids @ ladder_pairs L"

definition ladder_ids :: "ladder \<Rightarrow> string list" where
  "ladder_ids L = map snd (ladder_pairs L)"

subsection \<open>Lemmas\<close>

lemma ladder_wf_Nil [simp]: "ladder_wf []"
  by (simp add: ladder_wf_def)

lemma ladder_wf_Cons:
  "ladder_wf ((q, ids) # L) \<longleftrightarrow> (\<forall>p \<in> fst ` set L. q < p) \<and> ids \<noteq> [] \<and> ladder_wf L"
  by (auto simp: ladder_wf_def)

lemma fst_set_ladder_push [ladder_simps]:
  "fst ` set (ladder_push p i L) = insert p (fst ` set L)"
  by (induction L rule: ladder_push.induct) auto

lemma fst_set_ladder_remove:
  "fst ` set (ladder_remove p i L) \<subseteq> fst ` set L"
  by (induction L rule: ladder_remove.induct) (auto simp: Let_def)

lemma ladder_push_wf [ladder_simps]: "ladder_wf L \<Longrightarrow> ladder_wf (ladder_push p i L)"
  by (induction L rule: ladder_push.induct)
     (auto simp: ladder_wf_Cons fst_set_ladder_push)

lemma ladder_remove_wf [ladder_simps]: "ladder_wf L \<Longrightarrow> ladder_wf (ladder_remove p i L)"
proof (induction p i L rule: ladder_remove.induct)
  case (2 p i q ids L)
  then have "\<forall>x \<in> fst ` set (ladder_remove p i L). q < x"
    using fst_set_ladder_remove by (fastforce simp: ladder_wf_Cons)
  with "2" show ?case by (auto simp: ladder_wf_Cons Let_def)
qed simp

lemma mset_ladder_pairs_push [ladder_simps]:
  "mset (ladder_pairs (ladder_push p i L)) = add_mset (p, i) (mset (ladder_pairs L))"
  by (induction L rule: ladder_push.induct) auto

lemma fst_ladder_pairs: "x \<in> set (ladder_pairs L) \<Longrightarrow> fst x \<in> fst ` set L"
  by (induction L rule: ladder_pairs.induct) force+

lemma ladder_pairs_remove [ladder_simps]:
  "ladder_wf L \<Longrightarrow> ladder_pairs (ladder_remove p i L) = filter (\<lambda>x. x \<noteq> (p, i)) (ladder_pairs L)"
proof (induction L rule: ladder_remove.induct)
  case (1 p i)
  then show ?case by simp
next
  case (2 p i q ids L)
  have rest: "filter (\<lambda>x. x \<noteq> (q, i)) (ladder_pairs L) = ladder_pairs L" if "ladder_wf ((q, ids) # L)"
    using that by (force simp: ladder_wf_Cons intro!: mset_filter_neq_absent dest: fst_ladder_pairs)
  show ?case
  proof (cases "p = q")
    case True
    with "2.prems" rest show ?thesis by (auto simp: Let_def filter_map comp_def)
  next
    case False
    with "2.IH" "2.prems" show ?thesis by (auto simp: ladder_wf_Cons filter_map comp_def)
  qed
qed


lemma map_of_ladder_None: "(\<forall>x \<in> fst ` set (L :: ladder). q < x) \<Longrightarrow> p \<le> q \<Longrightarrow> map_of L p = None"
proof -
  assume keys: "\<forall>x \<in> fst ` set L. q < x" and le: "p \<le> q"
  have "p \<notin> fst ` set L"
  proof
    assume "p \<in> fst ` set L"
    with keys have "q < p" by blast
    with le show False by simp
  qed
  then show ?thesis by (simp add: map_of_eq_None_iff)
qed

lemma map_of_ladder_push:
  "ladder_wf L \<Longrightarrow>
   map_of (ladder_push p i L) = (map_of L)(p \<mapsto> (case map_of L p of None \<Rightarrow> [] | Some ids \<Rightarrow> ids) @ [i])"
proof (induction L rule: ladder_push.induct)
  case (2 p i q ids L)
  then have keys: "\<forall>x \<in> fst ` set L. q < x" and wf: "ladder_wf L"
    by (auto simp: ladder_wf_Cons)
  show ?case
  proof (cases "p < q")
    case True
    with keys have "map_of L p = None" by (intro map_of_ladder_None) auto
    with True show ?thesis by (auto simp: fun_eq_iff)
  next
    case False
    with "2.IH" wf show ?thesis by (auto simp: fun_eq_iff)
  qed
qed (simp add: fun_eq_iff)

lemma map_of_ladder_remove:
  "ladder_wf L \<Longrightarrow>
   map_of (ladder_remove p i L) =
     (case map_of L p of
        None \<Rightarrow> map_of L
      | Some ids \<Rightarrow>
          (let ids' = filter (\<lambda>x. x \<noteq> i) ids in
           if ids' = [] then (map_of L)(p := None) else (map_of L)(p \<mapsto> ids')))"
proof (induction L rule: ladder_remove.induct)
  case (2 p i q ids L)
  then have keys: "\<forall>x \<in> fst ` set L. q < x" and wf: "ladder_wf L"
    by (auto simp: ladder_wf_Cons)
  show ?case
  proof (cases "p = q")
    case True
    with keys have "map_of L p = None" by (intro map_of_ladder_None) auto
    with True show ?thesis by (auto simp: fun_eq_iff Let_def)
  next
    case False
    with "2.IH" wf show ?thesis
      by (auto simp: fun_eq_iff Let_def split: option.splits)
  qed
qed simp



subsection \<open>Membership, keys and extreme keys\<close>

lemma in_ladder_pairs_iff:
  "(p, i) \<in> set (ladder_pairs L) \<longleftrightarrow> (\<exists>ids. (p, ids) \<in> set L \<and> i \<in> set ids)"
  by (induction L rule: ladder_pairs.induct) auto

lemma ladder_wf_keys_distinct: "ladder_wf L \<Longrightarrow> distinct (map fst L)"
  by (simp add: ladder_wf_def strict_sorted_iff)

lemma ladder_wf_slot_unique:
  "ladder_wf L \<Longrightarrow> (p, ids) \<in> set L \<Longrightarrow> (p, ids') \<in> set L \<Longrightarrow> ids' = ids"
  by (metis ladder_wf_keys_distinct map_of_is_SomeI option.inject)

lemma ladder_wf_slot_pairs:
  "ladder_wf L \<Longrightarrow> (p, ids) \<in> set L \<Longrightarrow> (p, i) \<in> set (ladder_pairs L) \<longleftrightarrow> i \<in> set ids"
  by (auto simp: in_ladder_pairs_iff dest: ladder_wf_slot_unique)

lemma distinct_ladder_ids_slot:
  "distinct (ladder_ids L) \<Longrightarrow> (p, ids) \<in> set L \<Longrightarrow> distinct ids"
  by (induction L rule: ladder_pairs.induct) (auto simp: ladder_ids_def comp_def)

lemma ladder_wf_keys_pairs:
  assumes wf: "ladder_wf L"
  shows "fst ` set L = fst ` set (ladder_pairs L)"
proof
  show "fst ` set L \<subseteq> fst ` set (ladder_pairs L)"
  proof
    fix p assume "p \<in> fst ` set L"
    then obtain ids where slot: "(p, ids) \<in> set L" by force
    with wf have "ids \<noteq> []" by (auto simp: ladder_wf_def)
    then obtain i where "i \<in> set ids" by (meson list.set_sel(1))
    with slot have "(p, i) \<in> set (ladder_pairs L)" by (auto simp: in_ladder_pairs_iff)
    then show "p \<in> fst ` set (ladder_pairs L)" by force
  qed
  show "fst ` set (ladder_pairs L) \<subseteq> fst ` set L"
    using fst_ladder_pairs by blast
qed

lemma ladder_last_key_Max:
  "ladder_wf L \<Longrightarrow> ladder_last_key L = (if L = [] then None else Some (Max (fst ` set L)))"
proof (induction L)
  case (Cons e L)
  obtain q ids where e: "e = (q, ids)" by fastforce
  with Cons.prems have keys: "\<forall>x \<in> fst ` set L. q < x" and wf: "ladder_wf L"
    by (auto simp: ladder_wf_Cons)
  show ?case
  proof (cases "L = []")
    case False
    with Cons.IH wf have "fst (last L) = Max (fst ` set L)" by (simp add: ladder_last_key_def)
    moreover have "Max (insert q (fst ` set L)) = Max (fst ` set L)"
    proof -
      obtain x where x: "x \<in> fst ` set L" using False by fastforce
      then have "x \<le> Max (fst ` set L)" by simp
      with keys x have "q < Max (fst ` set L)" by (meson less_le_trans)
      with False show ?thesis by (simp add: Max_insert)
    qed
    ultimately show ?thesis using False e by (simp add: ladder_last_key_def)
  qed (simp add: e ladder_last_key_def)
qed (simp add: ladder_last_key_def)

lemma ladder_first_key_Min:
  "ladder_wf L \<Longrightarrow> ladder_first_key L = (if L = [] then None else Some (Min (fst ` set L)))"
proof (cases L)
  case (Cons e L')
  obtain q ids where e: "e = (q, ids)" by fastforce
  assume wf: "ladder_wf L"
  with Cons e have keys: "\<forall>x \<in> fst ` set L'. q < x" by (auto simp: ladder_wf_Cons)
  then have "Min (insert q (fst ` set L')) = q"
    by (intro Min_eqI) (auto intro: less_imp_le)
  with Cons e show ?thesis by (simp add: ladder_first_key_def)
qed (simp add: ladder_first_key_def)

lemmas ladder_eval = ladder_wf_def ladder_ids_def ladder_last_key_def ladder_first_key_def

subsection \<open>The ladder implements an ordered map of FIFO queues\<close>

text \<open>
  Claim C7. \<open>entry(price).or_insert_with(Vec::new).push(id)\<close> on the ladder refines
  the abstract map update: on a well-formed ladder the result is well formed and maps the
  price to its old queue (or the empty one) with the id appended at the back, every other
  price unchanged.
\<close>

theorem ladder_push_refines:
  "ladder_wf L \<Longrightarrow>
   ladder_wf (ladder_push p i L)
   \<and> map_of (ladder_push p i L) = (map_of L)(p \<mapsto> (case map_of L p of None \<Rightarrow> [] | Some ids \<Rightarrow> ids) @ [i])"
  by (simp add: ladder_push_wf map_of_ladder_push)

theorem ladder_push_refines_witness:
  "ladder_wf [(99.98, [''a'']), (100, [''b''])]
   \<and> ladder_push 99.99 ''c'' [(99.98, [''a'']), (100, [''b''])] = [(99.98, [''a'']), (99.99, [''c'']), (100, [''b''])]
   \<and> map_of (ladder_push 100 ''c'' [(99.98, [''a'']), (100, [''b''])]) 100 = Some [''b'', ''c'']"
proof -
  have h: "ladder_wf [(99.98::ordered_float, [''a'']), (100, [''b''])]" by (simp add: ladder_wf_def)
  show ?thesis using h ladder_push_refines [OF h, of 100 "''c''"] by simp
qed

text \<open>
  Claim C8. \<open>get_mut(price)\<close>, \<open>retain(|x| x != id)\<close> and removal of an emptied
  price refine the abstract map operation: on a well-formed ladder the result is well
  formed; an absent price leaves the map unchanged; otherwise the id leaves the queue and
  the price disappears exactly when its queue becomes empty.
\<close>

theorem ladder_remove_refines:
  "ladder_wf L \<Longrightarrow>
   ladder_wf (ladder_remove p i L)
   \<and> map_of (ladder_remove p i L) =
       (case map_of L p of
          None \<Rightarrow> map_of L
        | Some ids \<Rightarrow>
            (let ids' = filter (\<lambda>x. x \<noteq> i) ids in
             if ids' = [] then (map_of L)(p := None) else (map_of L)(p \<mapsto> ids')))"
  by (simp add: ladder_remove_wf map_of_ladder_remove)

theorem ladder_remove_refines_witness:
  "ladder_wf [(99.98, [''a'']), (100, [''b'', ''c''])]
   \<and> ladder_remove 99.98 ''a'' [(99.98, [''a'']), (100, [''b'', ''c''])] = [(100, [''b'', ''c''])]
   \<and> map_of (ladder_remove 100 ''b'' [(99.98, [''a'']), (100, [''b'', ''c''])]) 100 = Some [''c'']"
proof -
  have h: "ladder_wf [(99.98::ordered_float, [''a'']), (100, [''b'', ''c''])]" by (simp add: ladder_wf_def)
  show ?thesis using h ladder_remove_refines [OF h, of 100 "''b''"] by simp
qed

end
