(* ===== verification/OrderBook.thy ===== *)
theory OrderBook
  imports Ladder
begin

text \<open>
  The order book of one symbol (\<^verbatim>\<open>src/backend-sse/src/order_book.rs\<close>, struct
  \<^verbatim>\<open>OrderBook\<close> and its mutators \<^verbatim>\<open>add_order\<close>, \<^verbatim>\<open>remove_order\<close>,
  \<^verbatim>\<open>update_order\<close>). The order index \<^verbatim>\<open>HashMap<String, Order>\<close> is an association
  list with distinct keys; the two ladders are the sorted association lists of
  \<^theory_text>\<open>Ladder\<close>. Each mutator returns the Rust \<open>bool\<close> together with the new book.
  The invariant \<open>book_inv\<close> says that the ladder slots and the index describe the same
  resting orders, each in exactly one slot; every mutator keeps it.
\<close>

datatype side = Bid | Ask

record order =
  order_id :: string
  price :: ordered_float
  quantity :: u64
  side :: side
  timestamp :: millis
  original_quantity :: u64

text \<open>\<^verbatim>\<open>Order::new\<close>: the resting-since time is the current time.\<close>

definition new_order :: "string \<Rightarrow> ordered_float \<Rightarrow> u64 \<Rightarrow> side \<Rightarrow> millis \<Rightarrow> order" where
  "new_order i p q s now =
     \<lparr>order_id = i, price = p, quantity = q, side = s, timestamp = now, original_quantity = q\<rparr>"

text \<open>\<^verbatim>\<open>Order::update_quantity\<close>: the quantity changes and the timestamp is reset.\<close>

definition update_quantity :: "u64 \<Rightarrow> millis \<Rightarrow> order \<Rightarrow> order" where
  "update_quantity q now od = od\<lparr>quantity := q, timestamp := now\<rparr>"

text \<open>\<^verbatim>\<open>Order::age_ms\<close>: \<open>(now - timestamp).num_milliseconds().max(0) as u64\<close>.\<close>

definition age_ms :: "millis \<Rightarrow> order \<Rightarrow> u64" where
  "age_ms now od = word_of_int (max 0 (now - timestamp od))"

record order_book =
  symbol :: string
  orders :: "(string \<times> order) list"
  bids_by_price :: ladder
  asks_by_price :: ladder
  sequence :: u64

definition new_order_book :: "string \<Rightarrow> order_book" where
  "new_order_book s =
     \<lparr>symbol = s, orders = [], bids_by_price = [], asks_by_price = [], sequence = 0\<rparr>"

text \<open>The \<open>match side { Side::Bid => .., Side::Ask => .. }\<close> blocks: read or change one ladder.\<close>

definition side_ladder :: "side \<Rightarrow> order_book \<Rightarrow> ladder" where
  "side_ladder s b = (case s of Bid \<Rightarrow> bids_by_price b | Ask \<Rightarrow> asks_by_price b)"

definition map_side_ladder :: "side \<Rightarrow> (ladder \<Rightarrow> ladder) \<Rightarrow> order_book \<Rightarrow> order_book" where
  "map_side_ladder s f b =
     (case s of Bid \<Rightarrow> b\<lparr>bids_by_price := f (bids_by_price b)\<rparr>
              | Ask \<Rightarrow> b\<lparr>asks_by_price := f (asks_by_price b)\<rparr>)"

text \<open>
  \<^verbatim>\<open>remove_order\<close>: \<open>orders.remove(id)\<close>; if the id was there, its slot is cleaned
  and the sequence is incremented (a \<open>u64\<close> \<open>+= 1\<close>, which wraps).
\<close>

definition remove_order :: "string \<Rightarrow> order_book \<Rightarrow> bool \<times> order_book" where
  "remove_order i b =
     (case map_of (orders b) i of
        None \<Rightarrow> (False, b)
      | Some od \<Rightarrow>
          (let b1 = map_side_ladder (side od) (ladder_remove (price od) i)
                      (b\<lparr>orders := AList.delete i (orders b)\<rparr>)
           in (True, b1\<lparr>sequence := sequence b1 + 1\<rparr>)))"

text \<open>
  \<^verbatim>\<open>add_order\<close>: an existing order with the same id is removed first (through
  \<^verbatim>\<open>remove_order\<close>, sequence included); then the order is inserted in the index and
  pushed at the back of its price queue, and the sequence is incremented. Always \<open>true\<close>.
\<close>

definition add_order :: "order \<Rightarrow> order_book \<Rightarrow> bool \<times> order_book" where
  "add_order od b =
     (let b0 = (if map_of (orders b) (order_id od) \<noteq> None
                then snd (remove_order (order_id od) b) else b);
          b1 = b0\<lparr>orders := AList.update (order_id od) od (orders b0)\<rparr>;
          b2 = map_side_ladder (side od) (ladder_push (price od) (order_id od)) b1
      in (True, b2\<lparr>sequence := sequence b2 + 1\<rparr>))"

text \<open>
  \<^verbatim>\<open>update_order\<close>: quantity zero is a removal; otherwise the order's quantity and
  timestamp change in place (its slot does not move) and the sequence is incremented.
\<close>

definition update_order :: "string \<Rightarrow> u64 \<Rightarrow> millis \<Rightarrow> order_book \<Rightarrow> bool \<times> order_book" where
  "update_order i q now b =
     (if q = 0 then remove_order i b
      else (case map_of (orders b) i of
              None \<Rightarrow> (False, b)
            | Some od \<Rightarrow>
                (True, b\<lparr>orders := AList.update i (update_quantity q now od) (orders b),
                         sequence := sequence b + 1\<rparr>)))"

subsection \<open>The slot invariant\<close>

text \<open>
  The slots of the ladders, tagged with their side, and the slot each indexed order
  claims. The invariant: both ladders well formed, index keys distinct and equal to the
  order's own id, and the two slot lists equal as multisets. As the index keys are
  distinct, this makes every id rest in exactly one slot, the one of its side and price.
\<close>

definition book_slots :: "order_book \<Rightarrow> (side \<times> ordered_float \<times> string) list" where
  "book_slots b =
     map (\<lambda>(p, i). (Bid, p, i)) (ladder_pairs (bids_by_price b))
     @ map (\<lambda>(p, i). (Ask, p, i)) (ladder_pairs (asks_by_price b))"

definition order_slots :: "(string \<times> order) list \<Rightarrow> (side \<times> ordered_float \<times> string) list" where
  "order_slots al = map (\<lambda>(k, od). (side od, price od, k)) al"

definition book_inv :: "order_book \<Rightarrow> bool" where
  "book_inv b \<longleftrightarrow>
     ladder_wf (bids_by_price b) \<and> ladder_wf (asks_by_price b)
     \<and> distinct (map fst (orders b)) \<and> (\<forall>(k, od) \<in> set (orders b). order_id od = k)
     \<and> mset (book_slots b) = mset (order_slots (orders b))"

subsection \<open>Lemmas on the slot lists\<close>

lemma book_slots_simps [book_simps]:
  "book_slots (b\<lparr>orders := x\<rparr>) = book_slots b"
  "book_slots (b\<lparr>sequence := n\<rparr>) = book_slots b"
  by (simp_all add: book_slots_def)

lemma side_ladder_simps [book_simps]:
  "side_ladder s (b\<lparr>orders := x\<rparr>) = side_ladder s b"
  "side_ladder s (b\<lparr>sequence := n\<rparr>) = side_ladder s b"
  "orders (map_side_ladder s f b) = orders b"
  "sequence (map_side_ladder s f b) = sequence b"
  "symbol (map_side_ladder s f b) = symbol b"
  "side_ladder s (map_side_ladder s f b) = f (side_ladder s b)"
  by (cases s; simp add: side_ladder_def map_side_ladder_def)+

lemma ladder_wf_map_side [book_simps]:
  "ladder_wf (bids_by_price b) \<Longrightarrow> ladder_wf (asks_by_price b) \<Longrightarrow>
   (\<And>L. ladder_wf L \<Longrightarrow> ladder_wf (f L)) \<Longrightarrow>
   ladder_wf (bids_by_price (map_side_ladder s f b)) \<and> ladder_wf (asks_by_price (map_side_ladder s f b))"
  by (cases s) (simp_all add: map_side_ladder_def)

lemma mset_book_slots_push [book_simps]:
  "mset (book_slots (map_side_ladder s (ladder_push p i) b)) = add_mset (s, p, i) (mset (book_slots b))"
  by (cases s) (simp_all add: book_slots_def map_side_ladder_def mset_ladder_pairs_push)

lemma book_slots_remove:
  assumes "ladder_wf (side_ladder s b)"
  shows "book_slots (map_side_ladder s (ladder_remove p i) b) = filter (\<lambda>x. x \<noteq> (s, p, i)) (book_slots b)"
  using assms
  by (cases s) (auto simp: book_slots_def map_side_ladder_def side_ladder_def ladder_pairs_remove
                           filter_map comp_def case_prod_beta intro!: filter_True [symmetric])

lemma order_slots_append [book_simps]:
  "order_slots (al @ [(k, od)]) = order_slots al @ [(side od, price od, k)]"
  by (simp add: order_slots_def)

lemma order_slots_delete:
  "order_slots (AList.delete i al) = filter (\<lambda>x. snd (snd x) \<noteq> i) (order_slots al)"
  by (induction al) (auto simp: order_slots_def)

lemma order_slots_filter_key:
  assumes "distinct (map fst al)" and "map_of al i = Some od"
  shows "filter (\<lambda>x. snd (snd x) \<noteq> i) (order_slots al)
           = filter (\<lambda>x. x \<noteq> (side od, price od, i)) (order_slots al)"
proof -
  have "od' = od" if "(i, od') \<in> set al" for od'
    using assms that by (metis map_of_is_SomeI option.inject)
  then show ?thesis unfolding order_slots_def filter_map
    by (intro arg_cong [where f = "map _"] filter_cong) auto
qed

lemma order_slots_update_same_slot:
  "map_of al i = Some od \<Longrightarrow> side o' = side od \<Longrightarrow> price o' = price od \<Longrightarrow>
   order_slots (AList.update i o' al) = order_slots al"
  by (induction al) (auto simp: order_slots_def)


lemma distinct_keys_ids:
  "distinct (map fst al) \<Longrightarrow> (\<forall>(k, od) \<in> set al. order_id od = k) \<Longrightarrow>
   (k, od) \<in> set al \<Longrightarrow> order_id od = k"
  by auto

subsection \<open>The mutators keep the invariant\<close>

lemma book_inv_new_order_book [simp]: "book_inv (new_order_book s)"
  by (simp add: book_inv_def new_order_book_def book_slots_def order_slots_def)

lemma remove_order_absent [book_simps]:
  "map_of (orders b) i = None \<Longrightarrow> remove_order i b = (False, b)"
  by (simp add: remove_order_def)

lemma remove_order_present:
  "map_of (orders b) i = Some od \<Longrightarrow>
   remove_order i b =
     (True, (map_side_ladder (side od) (ladder_remove (price od) i)
               (b\<lparr>orders := AList.delete i (orders b)\<rparr>))\<lparr>sequence := sequence b + 1\<rparr>)"
  by (simp add: remove_order_def Let_def book_simps)

lemma orders_remove_order [book_simps]:
  "orders (snd (remove_order i b)) = AList.delete i (orders b)"
  by (cases "map_of (orders b) i") (simp_all add: remove_order_present remove_order_absent book_simps delete_id map_of_None_iff)

lemma remove_order_inv:
  assumes inv: "book_inv b"
  shows "book_inv (snd (remove_order i b))"
proof (cases "map_of (orders b) i")
  case None
  with inv show ?thesis by (simp add: remove_order_absent)
next
  case (Some od)
  let ?b1 = "b\<lparr>orders := AList.delete i (orders b)\<rparr>"
  let ?b2 = "map_side_ladder (side od) (ladder_remove (price od) i) ?b1"
  have wf: "ladder_wf (side_ladder (side od) ?b1)"
    using inv by (cases "side od") (simp_all add: book_inv_def side_ladder_def)
  have slots: "book_slots ?b2 = filter (\<lambda>x. x \<noteq> (side od, price od, i)) (book_slots b)"
    using book_slots_remove [OF wf] by (simp add: book_simps)
  have idx: "order_slots (AList.delete i (orders b))
               = filter (\<lambda>x. x \<noteq> (side od, price od, i)) (order_slots (orders b))"
    using inv Some by (simp add: book_inv_def order_slots_delete order_slots_filter_key)
  have ladders: "ladder_wf (bids_by_price ?b2) \<and> ladder_wf (asks_by_price ?b2)"
    using inv by (intro ladder_wf_map_side) (simp_all add: book_inv_def ladder_remove_wf)
  have keys: "distinct (map fst (AList.delete i (orders b)))
              \<and> (\<forall>(k, od) \<in> set (AList.delete i (orders b)). order_id od = k)"
    using inv by (auto simp: book_inv_def distinct_delete in_set_delete)
  from inv slots idx ladders keys Some show ?thesis
    by (simp add: remove_order_present book_inv_def book_simps)
qed

lemma remove_order_absent_after [book_simps]:
  "map_of (orders (snd (remove_order i b))) i = None"
  by (simp add: book_simps delete_conv')

text \<open>Inserting an order whose id is not in the index keeps the invariant.\<close>

lemma insert_fresh_inv:
  assumes inv: "book_inv b" and fresh: "map_of (orders b) (order_id od) = None"
  shows "book_inv ((map_side_ladder (side od) (ladder_push (price od) (order_id od))
                      (b\<lparr>orders := AList.update (order_id od) od (orders b)\<rparr>))\<lparr>sequence := n\<rparr>)"
    (is "book_inv ?b")
proof -
  have app: "AList.update (order_id od) od (orders b) = orders b @ [(order_id od, od)]"
    using fresh by (simp add: update_absent map_of_None_iff)
  have ladders: "ladder_wf (bids_by_price ?b) \<and> ladder_wf (asks_by_price ?b)"
    using inv ladder_wf_map_side [where f = "ladder_push (price od) (order_id od)"]
    by (simp add: book_inv_def ladder_push_wf)
  have slots: "mset (book_slots ?b) = add_mset (side od, price od, order_id od) (mset (book_slots b))"
    by (simp add: book_simps)
  have keys: "distinct (map fst (orders ?b)) \<and> (\<forall>(k, od') \<in> set (orders ?b). order_id od' = k)"
    using inv fresh by (auto simp: book_inv_def book_simps app map_of_None_iff)
  from inv ladders slots keys show ?thesis
    by (simp add: book_inv_def book_simps app)
qed

lemma add_order_inv:
  assumes inv: "book_inv b"
  shows "book_inv (snd (add_order od b))"
proof -
  define b0 where "b0 = (if map_of (orders b) (order_id od) \<noteq> None
                         then snd (remove_order (order_id od) b) else b)"
  have "book_inv b0" and "map_of (orders b0) (order_id od) = None"
    using inv by (simp_all add: b0_def remove_order_inv remove_order_absent_after)
  then show ?thesis
    unfolding add_order_def Let_def b0_def [symmetric] snd_conv by (rule insert_fresh_inv)
qed

lemma update_order_inv:
  assumes inv: "book_inv b"
  shows "book_inv (snd (update_order i q now b))"
proof (cases "q = 0")
  case True
  with inv show ?thesis by (simp add: update_order_def remove_order_inv)
next
  case False
  show ?thesis
  proof (cases "map_of (orders b) i")
    case None
    with False inv show ?thesis by (simp add: update_order_def)
  next
    case (Some od)
    let ?od' = "update_quantity q now od"
    have same: "order_slots (AList.update i ?od' (orders b)) = order_slots (orders b)"
      using Some by (simp add: order_slots_update_same_slot update_quantity_def)
    have "order_id od = i"
      using inv Some by (auto simp: book_inv_def map_of_Some_in_set)
    then have keys: "distinct (map fst (AList.update i ?od' (orders b)))
                     \<and> (\<forall>(k, od'') \<in> set (AList.update i ?od' (orders b)). order_id od'' = k)"
      using inv by (auto simp: book_inv_def distinct_update in_set_update update_quantity_def)
    from inv False Some same keys show ?thesis
      by (simp add: update_order_def book_inv_def book_simps)
  qed
qed


subsection \<open>What the invariant gives: slot membership\<close>

lemma in_ladder_ids_iff: "i \<in> set (ladder_ids L) \<longleftrightarrow> (\<exists>p. (p, i) \<in> set (ladder_pairs L))"
  by (force simp: ladder_ids_def)

lemma in_book_slots_iff:
  "(s, p, i) \<in> set (book_slots b) \<longleftrightarrow> (p, i) \<in> set (ladder_pairs (side_ladder s b))"
  by (cases s) (auto simp: book_slots_def side_ladder_def)

lemma in_order_slots_iff:
  "distinct (map fst al) \<Longrightarrow>
   (s, p, i) \<in> set (order_slots al) \<longleftrightarrow> (\<exists>od. map_of al i = Some od \<and> side od = s \<and> price od = p)"
  by (force simp: order_slots_def map_of_Some_in_set)

text \<open>Under the invariant, an id rests at slot \<open>(s, p)\<close> exactly when it is indexed with side \<open>s\<close> and price \<open>p\<close>.\<close>

lemma book_inv_slot_iff:
  "book_inv b \<Longrightarrow>
   (p, i) \<in> set (ladder_pairs (side_ladder s b))
     \<longleftrightarrow> (\<exists>od. map_of (orders b) i = Some od \<and> side od = s \<and> price od = p)"
proof -
  assume inv: "book_inv b"
  then have "set (book_slots b) = set (order_slots (orders b))"
    by (metis book_inv_def set_mset_mset)
  with inv show ?thesis
    by (simp add: book_inv_def in_book_slots_iff [symmetric] in_order_slots_iff)
qed

lemma order_slots_key_single:
  "distinct (map fst al) \<Longrightarrow> map_of al k = Some od \<Longrightarrow>
   filter (\<lambda>x. snd (snd x) = k) (order_slots al) = [(side od, price od, k)]"
proof (induction al)
  case (Cons a al)
  obtain k' od' where a: "a = (k', od')" by fastforce
  show ?case
  proof (cases "k' = k")
    case True
    with Cons.prems a have "k \<notin> fst ` set al" and "od' = od" by auto
    then have "filter (\<lambda>x. snd (snd x) = k) (order_slots al) = []"
      by (force simp: order_slots_def filter_empty_conv)
    with a True \<open>od' = od\<close> show ?thesis by (simp add: order_slots_def)
  next
    case False
    with Cons a show ?thesis by (simp add: order_slots_def)
  qed
qed simp

lemma orders_add_order [book_simps]:
  "orders (snd (add_order od b)) = AList.update (order_id od) od (AList.delete (order_id od) (orders b))"
  by (auto simp: add_order_def Let_def book_simps map_of_None_iff)

subsection \<open>Functional behaviour of the mutators\<close>

lemma sequence_remove_order [book_simps]:
  "sequence (snd (remove_order i b)) = sequence b + (if map_of (orders b) i = None then 0 else 1)"
  by (cases "map_of (orders b) i") (simp_all add: remove_order_present remove_order_absent)

lemma fst_remove_order [book_simps]:
  "fst (remove_order i b) = (map_of (orders b) i \<noteq> None)"
  by (cases "map_of (orders b) i") (simp_all add: remove_order_present remove_order_absent)



subsection \<open>What the invariant gives: distinct ids, keys, level contents\<close>

lemma book_slots_ids:
  "map (\<lambda>x. snd (snd x)) (book_slots b) = ladder_ids (bids_by_price b) @ ladder_ids (asks_by_price b)"
  by (simp add: book_slots_def ladder_ids_def comp_def case_prod_beta)

lemma order_slots_ids: "map (\<lambda>x. snd (snd x)) (order_slots al) = map fst al"
  by (simp add: order_slots_def comp_def case_prod_beta)

lemma book_inv_ids_distinct:
  assumes "book_inv b"
  shows "distinct (ladder_ids (bids_by_price b) @ ladder_ids (asks_by_price b))"
proof -
  from assms have "mset (map (\<lambda>x. snd (snd x)) (book_slots b))
                     = mset (map (\<lambda>x. snd (snd x)) (order_slots (orders b)))"
    unfolding book_inv_def by (metis mset_map)
  then have "distinct (map (\<lambda>x. snd (snd x)) (book_slots b))
               = distinct (map (\<lambda>x. snd (snd x)) (order_slots (orders b)))"
    by (rule mset_eq_imp_distinct_iff)
  with assms show ?thesis by (simp add: book_slots_ids order_slots_ids book_inv_def)
qed

lemma book_inv_side_ids_distinct:
  "book_inv b \<Longrightarrow> distinct (ladder_ids (side_ladder s b))"
  using book_inv_ids_distinct by (cases s) (auto simp: side_ladder_def)

lemma book_inv_side_wf: "book_inv b \<Longrightarrow> ladder_wf (side_ladder s b)"
  by (cases s) (simp_all add: book_inv_def side_ladder_def)

text \<open>Under the invariant the prices of a ladder are the prices of the resting orders of its side.\<close>

lemma book_inv_keys:
  assumes inv: "book_inv b"
  shows "fst ` set (side_ladder s b) = price ` {od \<in> snd ` set (orders b). side od = s}"
proof -
  have wf: "ladder_wf (side_ladder s b)" using inv by (rule book_inv_side_wf)
  have dist: "distinct (map fst (orders b))" using inv by (simp add: book_inv_def)
  have "p \<in> fst ` set (ladder_pairs (side_ladder s b))
          \<longleftrightarrow> p \<in> price ` {od \<in> snd ` set (orders b). side od = s}" for p
  proof -
    have "p \<in> fst ` set (ladder_pairs (side_ladder s b))
            \<longleftrightarrow> (\<exists>i. (p, i) \<in> set (ladder_pairs (side_ladder s b)))" by force
    also have "\<dots> \<longleftrightarrow> (\<exists>i od. map_of (orders b) i = Some od \<and> side od = s \<and> price od = p)"
      using book_inv_slot_iff [OF inv] by blast
    also have "\<dots> \<longleftrightarrow> p \<in> price ` {od \<in> snd ` set (orders b). side od = s}"
      using dist by (force simp: map_of_Some_in_set)
    finally show ?thesis .
  qed
  then have "fst ` set (ladder_pairs (side_ladder s b)) = price ` {od \<in> snd ` set (orders b). side od = s}"
    by blast
  with wf show ?thesis by (simp add: ladder_wf_keys_pairs)
qed

lemma map_of_add_order [book_simps]:
  "map_of (orders (snd (add_order od b))) = (map_of (orders b))(order_id od \<mapsto> od)"
  by (simp add: book_simps update_conv' delete_conv')

lemma sequence_add_order_eq:
  "sequence (snd (add_order od b)) = sequence b + (if map_of (orders b) (order_id od) = None then 1 else 2)"
  by (simp add: add_order_def Let_def book_simps)

lemmas book_eval =
  new_order_book_def new_order_def add_order_def remove_order_def update_order_def
  update_quantity_def book_inv_def book_slots_def order_slots_def map_side_ladder_def
  side_ladder_def ladder_wf_def ladder_ids_def

subsection \<open>Properties of the order book\<close>

text \<open>
  Claim C1. \<^verbatim>\<open>add_order\<close> keeps the slot invariant: after an insertion, upsert
  included, every indexed order rests in exactly one ladder slot, the one of its side and
  price, the ladders stay strictly ordered and no price keeps an empty queue.
\<close>

theorem add_order_keeps_inv: "book_inv b \<Longrightarrow> book_inv (snd (add_order od b))"
  by (rule add_order_inv)

theorem add_order_keeps_inv_witness:
  "book_inv (snd (add_order (new_order ''X'' 100 500 Bid 0) (new_order_book ''BTCUSD'')))
   \<and> book_inv (snd (add_order (new_order ''X'' 101 300 Ask 7)
                 (snd (add_order (new_order ''X'' 100 500 Bid 0) (new_order_book ''BTCUSD'')))))"
proof -
  have h: "book_inv (snd (add_order (new_order ''X'' 100 500 Bid 0) (new_order_book ''BTCUSD'')))"
    by (simp add: book_eval)
  show ?thesis using h add_order_keeps_inv [OF h, of "new_order ''X'' 101 300 Ask 7"] by simp
qed

text \<open>
  Claim C2. \<^verbatim>\<open>remove_order\<close> keeps the slot invariant; in particular a price
  whose queue becomes empty is dropped from its ladder.
\<close>

theorem remove_order_keeps_inv: "book_inv b \<Longrightarrow> book_inv (snd (remove_order i b))"
  by (rule remove_order_inv)

theorem remove_order_keeps_inv_witness:
  "book_inv (snd (add_order (new_order ''X'' 100 500 Bid 0) (new_order_book ''BTCUSD'')))
   \<and> book_inv (snd (remove_order ''X''
                 (snd (add_order (new_order ''X'' 100 500 Bid 0) (new_order_book ''BTCUSD'')))))"
proof -
  have h: "book_inv (snd (add_order (new_order ''X'' 100 500 Bid 0) (new_order_book ''BTCUSD'')))"
    by (simp add: book_eval)
  show ?thesis using h remove_order_keeps_inv [OF h, of "''X''"] by simp
qed

text \<open>
  Claim C3. \<^verbatim>\<open>update_order\<close> keeps the slot invariant, on each of its branches
  (quantity zero is a removal, unknown id, in-place quantity change).
\<close>

theorem update_order_keeps_inv: "book_inv b \<Longrightarrow> book_inv (snd (update_order i q now b))"
  by (rule update_order_inv)

theorem update_order_keeps_inv_witness:
  "book_inv (snd (add_order (new_order ''X'' 100 500 Bid 0) (new_order_book ''BTCUSD'')))
   \<and> book_inv (snd (update_order ''X'' 700 9
                 (snd (add_order (new_order ''X'' 100 500 Bid 0) (new_order_book ''BTCUSD'')))))"
proof -
  have h: "book_inv (snd (add_order (new_order ''X'' 100 500 Bid 0) (new_order_book ''BTCUSD'')))"
    by (simp add: book_eval)
  show ?thesis using h update_order_keeps_inv [OF h, of "''X''" 700 9] by simp
qed

text \<open>
  Claim C4. Upsert law of \<^verbatim>\<open>add_order\<close>: whether or not the id was resting,
  afterwards the index maps it to the new order and exactly one ladder slot holds it, at
  the new order's side and price.
\<close>

theorem add_order_upsert:
  assumes inv: "book_inv b"
  shows "map_of (orders (snd (add_order od b))) = (map_of (orders b))(order_id od \<mapsto> od)
         \<and> {#x \<in># mset (book_slots (snd (add_order od b))). snd (snd x) = order_id od#}
             = {#(side od, price od, order_id od)#}"
proof -
  let ?b' = "snd (add_order od b)"
  have inv': "book_inv ?b'" using inv by (rule add_order_inv)
  then have "filter (\<lambda>x. snd (snd x) = order_id od) (order_slots (orders ?b'))
               = [(side od, price od, order_id od)]"
    by (simp add: book_inv_def map_of_add_order order_slots_key_single)
  then have "{#x \<in># mset (order_slots (orders ?b')). snd (snd x) = order_id od#}
               = {#(side od, price od, order_id od)#}"
    by (metis mset_filter mset.simps)
  with inv' show ?thesis by (simp add: book_inv_def map_of_add_order)
qed

theorem add_order_upsert_witness:
  "map_of (orders (snd (add_order (new_order ''X'' 101 300 Ask 7)
      (snd (add_order (new_order ''X'' 100 500 Bid 0) (new_order_book ''BTCUSD'')))))) ''X''
     = Some (new_order ''X'' 101 300 Ask 7)
   \<and> {#x \<in># mset (book_slots (snd (add_order (new_order ''X'' 101 300 Ask 7)
      (snd (add_order (new_order ''X'' 100 500 Bid 0) (new_order_book ''BTCUSD'')))))).
        snd (snd x) = ''X'' #} = {#(Ask, 101, ''X'')#}"
proof -
  have h: "book_inv (snd (add_order (new_order ''X'' 100 500 Bid 0) (new_order_book ''BTCUSD'')))"
    by (simp add: book_eval)
  show ?thesis
    using add_order_upsert [OF h, of "new_order ''X'' 101 300 Ask 7"] by (simp add: new_order_def)
qed

text \<open>
  Claim C5. \<^verbatim>\<open>remove_order\<close> on every branch: it answers whether the id was
  indexed; afterwards the id is neither indexed nor in any ladder slot, every other index
  entry is unchanged, and the sequence grew by one exactly when the id existed.
\<close>

theorem remove_order_spec:
  assumes inv: "book_inv b"
  shows "fst (remove_order i b) = (i \<in> fst ` set (orders b))
         \<and> map_of (orders (snd (remove_order i b))) = (map_of (orders b))(i := None)
         \<and> i \<notin> set (ladder_ids (bids_by_price (snd (remove_order i b))))
         \<and> i \<notin> set (ladder_ids (asks_by_price (snd (remove_order i b))))
         \<and> sequence (snd (remove_order i b)) = sequence b + (if i \<in> fst ` set (orders b) then 1 else 0)"
proof -
  let ?b' = "snd (remove_order i b)"
  have inv': "book_inv ?b'" using inv by (rule remove_order_inv)
  have gone: "map_of (orders ?b') i = None" by (rule remove_order_absent_after)
  have "i \<notin> set (ladder_ids (side_ladder s ?b'))" for s
    using book_inv_slot_iff [OF inv', of _ i s] gone by (simp add: in_ladder_ids_iff)
  from this [of Bid] this [of Ask] gone show ?thesis
    by (simp add: book_simps side_ladder_def delete_conv' map_of_None_iff)
qed

theorem remove_order_spec_witness:
  "fst (remove_order ''X'' (snd (add_order (new_order ''X'' 100 500 Bid 0) (new_order_book ''BTCUSD''))))
   \<and> ''X'' \<notin> set (ladder_ids (bids_by_price (snd (remove_order ''X''
        (snd (add_order (new_order ''X'' 100 500 Bid 0) (new_order_book ''BTCUSD'')))))))
   \<and> sequence (snd (remove_order ''X''
        (snd (add_order (new_order ''X'' 100 500 Bid 0) (new_order_book ''BTCUSD''))))) = 2"
proof -
  have h: "book_inv (snd (add_order (new_order ''X'' 100 500 Bid 0) (new_order_book ''BTCUSD'')))"
    by (simp add: book_eval)
  show ?thesis using remove_order_spec [OF h, of "''X''"] by (simp add: book_eval)
qed

text \<open>
  Claim C6. Sequence numbering of \<^verbatim>\<open>add_order\<close>: a fresh id advances the
  sequence by one, but re-adding a resting id advances it by two, because the upsert goes
  through \<^verbatim>\<open>remove_order\<close>, which increments it too (the spec counts one per
  mutation). The increments are \<open>u64\<close> additions and wrap.
\<close>

theorem add_order_sequence:
  "sequence (snd (add_order od b))
     = sequence b + (if order_id od \<in> fst ` set (orders b) then 2 else 1)"
  by (simp add: sequence_add_order_eq map_of_None_iff)

end
