(* ===== verification/Projection.thy ===== *)
theory Projection
  imports OrderBook
begin

text \<open>
  The read-only views of an order book (\<^verbatim>\<open>src/backend-sse/src/order_book.rs\<close>,
  \<^verbatim>\<open>get_mbo_data\<close>, \<^verbatim>\<open>get_mbp_data\<close>, \<^verbatim>\<open>get_best_bid_ask\<close>,
  \<^verbatim>\<open>get_spread_info\<close>) and the level records of
  \<^verbatim>\<open>src/backend-sse/src/message.rs\<close>. Each loop of the source is a recursive
  function with the loop's counters as arguments: \<open>levels_count\<close> (a \<open>u32\<close>) for the
  MBO scan, \<open>cumulative_quantity\<close> (a \<open>u64\<close>) for the MBP scan. The lemmas show that
  the MBO loop with its \<open>break\<close> computes the orders of the first \<open>max_levels\<close>
  price levels, that both views list prices best first, that the MBP cumulative column is
  the running sum of the quantity column, how the \<open>u32\<close> product
  \<open>max_levels * 3\<close> can wrap, and that the best bid and ask are the extreme prices of
  the resting orders.
\<close>

record mbo_level =
  mbo_order_id :: string
  mbo_price :: ordered_float
  mbo_quantity :: u64
  mbo_side :: side
  mbo_timestamp :: millis
  mbo_age_ms :: u64

record mbp_level =
  mbp_price :: ordered_float
  mbp_quantity :: u64
  mbp_order_count :: u32
  mbp_side :: side
  mbp_total_quantity :: u64
  mbp_avg_age_ms :: u64

text \<open>Bids are visited from the highest price (\<open>iter().rev()\<close>), asks from the lowest.\<close>

definition price_levels :: "side \<Rightarrow> order_book \<Rightarrow> ladder" where
  "price_levels s b = (case s of Bid \<Rightarrow> rev (bids_by_price b) | Ask \<Rightarrow> asks_by_price b)"

text \<open>The orders of a queue that the index knows: \<open>filter_map(|id| orders.get(id))\<close>.\<close>

fun found_orders :: "(string \<times> order) list \<Rightarrow> string list \<Rightarrow> order list" where
  "found_orders idx [] = []"
| "found_orders idx (i # is) =
     (case map_of idx i of None \<Rightarrow> found_orders idx is | Some od \<Rightarrow> od # found_orders idx is)"

definition mbo_row :: "millis \<Rightarrow> order \<Rightarrow> mbo_level" where
  "mbo_row now od =
     \<lparr>mbo_order_id = order_id od, mbo_price = price od, mbo_quantity = quantity od,
      mbo_side = side od, mbo_timestamp = timestamp od, mbo_age_ms = age_ms now od\<rparr>"

text \<open>
  The loop of \<^verbatim>\<open>get_mbo_side\<close>: stop once \<open>levels_count >= max_levels\<close>,
  otherwise emit every indexed order of the level and count the level.
\<close>

fun mbo_scan :: "millis \<Rightarrow> (string \<times> order) list \<Rightarrow> u32 \<Rightarrow> u32 \<Rightarrow> ladder \<Rightarrow> mbo_level list" where
  "mbo_scan now idx cnt k [] = []"
| "mbo_scan now idx cnt k ((p, ids) # L) =
     (if k \<le> cnt then []
      else map (mbo_row now) (found_orders idx ids) @ mbo_scan now idx (cnt + 1) k L)"

text \<open>
  \<^verbatim>\<open>get_mbo_side\<close>: the scan from \<open>levels_count = 0\<close>, then
  \<open>truncate((max_levels * 3) as usize)\<close>, the product taken in \<open>u32\<close>.
\<close>

definition get_mbo_side :: "millis \<Rightarrow> order_book \<Rightarrow> side \<Rightarrow> u32 \<Rightarrow> mbo_level list" where
  "get_mbo_side now b s k = take (unat (k * 3)) (mbo_scan now (orders b) 0 k (price_levels s b))"

definition get_mbo_data :: "millis \<Rightarrow> order_book \<Rightarrow> u32 \<Rightarrow> mbo_level list \<times> mbo_level list" where
  "get_mbo_data now b k = (get_mbo_side now b Bid k, get_mbo_side now b Ask k)"

text \<open>
  The loop of \<^verbatim>\<open>get_mbp_side\<close> over \<open>prices.take(max_levels)\<close>: a level whose
  queue has indexed orders gives one row; quantities, ages and the cumulative quantity are
  \<open>u64\<close> sums and the order count is \<open>len() as u32\<close>.
\<close>

fun mbp_scan :: "millis \<Rightarrow> (string \<times> order) list \<Rightarrow> side \<Rightarrow> u64 \<Rightarrow> ladder \<Rightarrow> mbp_level list" where
  "mbp_scan now idx s cum [] = []"
| "mbp_scan now idx s cum ((p, ids) # L) =
     (let os = found_orders idx ids in
      if os \<noteq> [] then
        (let q = sum_list (map quantity os);
             avg = (if os \<noteq> [] then sum_list (map (age_ms now) os) div of_nat (length os) else 0);
             cum' = cum + q
         in \<lparr>mbp_price = p, mbp_quantity = q, mbp_order_count = of_nat (length os), mbp_side = s,
             mbp_total_quantity = cum', mbp_avg_age_ms = avg\<rparr> # mbp_scan now idx s cum' L)
      else mbp_scan now idx s cum L)"

definition get_mbp_side :: "millis \<Rightarrow> order_book \<Rightarrow> side \<Rightarrow> u32 \<Rightarrow> mbp_level list" where
  "get_mbp_side now b s k = mbp_scan now (orders b) s 0 (take (unat k) (price_levels s b))"

definition get_mbp_data :: "millis \<Rightarrow> order_book \<Rightarrow> u32 \<Rightarrow> mbp_level list \<times> mbp_level list" where
  "get_mbp_data now b k = (get_mbp_side now b Bid k, get_mbp_side now b Ask k)"

definition get_best_bid_ask :: "order_book \<Rightarrow> ordered_float option \<times> ordered_float option" where
  "get_best_bid_ask b = (ladder_last_key (bids_by_price b), ladder_first_key (asks_by_price b))"

definition get_spread_info ::
  "order_book \<Rightarrow> ordered_float option \<times> ordered_float option \<times> ordered_float option" where
  "get_spread_info b =
     (case get_best_bid_ask b of
        (Some bid, Some ask) \<Rightarrow>
          (let spread = ask - bid; mid_price = (bid + ask) / 2
           in (Some spread, Some mid_price, Some (spread / mid_price * 10000)))
      | _ \<Rightarrow> (None, None, None))"

text \<open>Price priority of a side: bids best-first descending, asks ascending.\<close>

definition better :: "side \<Rightarrow> ordered_float \<Rightarrow> ordered_float \<Rightarrow> bool" where
  "better s p q = (case s of Bid \<Rightarrow> q < p | Ask \<Rightarrow> p < q)"

text \<open>The running sums of a column: the \<open>j\<close>-th is the sum of the first \<open>j + 1\<close> entries.\<close>

definition prefix_sums :: "'a::monoid_add list \<Rightarrow> 'a list" where
  "prefix_sums xs = map (\<lambda>j. sum_list (take (Suc j) xs)) [0..<length xs]"


text \<open>The orders of the index resting on side \<open>s\<close> at price \<open>p\<close>, in index order.\<close>

definition resting_at :: "side \<Rightarrow> ordered_float \<Rightarrow> order_book \<Rightarrow> order list" where
  "resting_at s p b = filter (\<lambda>od. side od = s \<and> price od = p) (map snd (orders b))"


text \<open>Two books of the spec's worked examples (section 8), built with \<^verbatim>\<open>add_order\<close>.\<close>

definition spread_example :: order_book where
  "spread_example =
     snd (add_order (new_order ''a1'' 100.05 300 Ask 0)
       (snd (add_order (new_order ''b1'' 100 500 Bid 0) (new_order_book ''XYZ''))))"

definition mbp_example :: order_book where
  "mbp_example =
     snd (add_order (new_order ''y'' 99.99 50 Bid 0)
       (snd (add_order (new_order ''x2'' 99.98 200 Bid 0)
         (snd (add_order (new_order ''x1'' 99.98 100 Bid 0) (new_order_book ''XYZ''))))))"

subsection \<open>The MBO loop computes the first levels\<close>

lemma mbo_scan_take:
  "cnt \<le> k \<Longrightarrow>
   mbo_scan now idx cnt k L
     = concat (map (\<lambda>(p, ids). map (mbo_row now) (found_orders idx ids)) (take (unat k - unat cnt) L))"
proof (induction L arbitrary: cnt)
  case (Cons e L)
  obtain p ids where e: "e = (p, ids)" by fastforce
  show ?case
  proof (cases "k \<le> cnt")
    case True
    with Cons.prems have "cnt = k" by simp
    with e show ?thesis by simp
  next
    case False
    then have lt: "cnt < k" by simp
    then have suc: "unat (cnt + 1) = Suc (unat cnt)" by (rule unat_inc_of_less)
    from lt have "cnt + 1 \<le> k" by (simp add: inc_le)
    with Cons.IH have IH: "mbo_scan now idx (cnt + 1) k L
      = concat (map (\<lambda>(p, ids). map (mbo_row now) (found_orders idx ids)) (take (unat k - unat (cnt + 1)) L))" .
    from lt have "unat cnt < unat k" by (simp add: word_less_nat_alt)
    then have "unat k - unat cnt = Suc (unat k - unat (cnt + 1))" by (simp add: suc)
    with e False IH show ?thesis by simp
  qed
qed simp


subsection \<open>The orders of a price level\<close>

lemma found_orders_all:
  "(\<forall>i \<in> set ids. map_of idx i \<noteq> None) \<Longrightarrow> found_orders idx ids = map (\<lambda>i. the (map_of idx i)) ids"
  by (induction ids) auto

lemma in_found_orders: "od \<in> set (found_orders idx ids) \<longleftrightarrow> (\<exists>i \<in> set ids. map_of idx i = Some od)"
  by (induction ids) (auto split: option.splits)

lemma set_price_levels: "set (price_levels s b) = set (side_ladder s b)"
  by (cases s) (simp_all add: price_levels_def side_ladder_def)

lemma level_slot:
  "(p, ids) \<in> set (price_levels s b) \<Longrightarrow> i \<in> set ids \<Longrightarrow> (p, i) \<in> set (ladder_pairs (side_ladder s b))"
  by (auto simp: set_price_levels in_ladder_pairs_iff)

lemma level_all_found:
  "book_inv b \<Longrightarrow> (p, ids) \<in> set (price_levels s b) \<Longrightarrow> \<forall>i \<in> set ids. map_of (orders b) i \<noteq> None"
  using book_inv_slot_iff level_slot by fastforce

lemma level_orders_slot:
  assumes "book_inv b" and "(p, ids) \<in> set (price_levels s b)" and "od \<in> set (found_orders (orders b) ids)"
  shows "price od = p \<and> side od = s"
  using assms book_inv_slot_iff [OF assms(1)] level_slot by (fastforce simp: in_found_orders)

lemma level_nonempty:
  assumes "book_inv b" and "(p, ids) \<in> set (price_levels s b)"
  shows "found_orders (orders b) ids \<noteq> []"
proof -
  have "ids \<noteq> []"
    using assms book_inv_side_wf [OF assms(1), of s] by (auto simp: set_price_levels ladder_wf_def)
  with level_all_found [OF assms] show ?thesis by (simp add: found_orders_all)
qed

lemma map_snd_by_keys:
  "distinct (map fst al) \<Longrightarrow> map snd al = map (\<lambda>k. the (map_of al k)) (map fst al)"
proof (induction al)
  case (Cons a al)
  obtain k v where a: "a = (k, v)" by fastforce
  with Cons.prems have notin: "k \<notin> set (map fst al)" and dist: "distinct (map fst al)" by auto
  from notin have "map (\<lambda>k'. the (map_of ((k, v) # al) k')) (map fst al)
                     = map (\<lambda>k'. the (map_of al k')) (map fst al)"
    by (rule_tac map_cong) auto
  with Cons.IH [OF dist] a show ?case by simp
qed simp

text \<open>Under the invariant, the queue of a price level holds exactly the resting orders of that side and price.\<close>

lemma level_orders_mset:
  assumes inv: "book_inv b" and lvl: "(p, ids) \<in> set (price_levels s b)"
  shows "mset (found_orders (orders b) ids) = mset (resting_at s p b)"
proof -
  let ?f = "\<lambda>k. the (map_of (orders b) k)"
  let ?P = "\<lambda>od. side od = s \<and> price od = p"
  have dist_keys: "distinct (map fst (orders b))" using inv by (simp add: book_inv_def)
  have wf: "ladder_wf (side_ladder s b)" using inv by (rule book_inv_side_wf)
  have slot: "(p, ids) \<in> set (side_ladder s b)" using lvl by (simp add: set_price_levels)
  have dist_ids: "distinct ids"
    using book_inv_side_ids_distinct [OF inv] slot by (rule distinct_ladder_ids_slot)
  have found: "found_orders (orders b) ids = map ?f ids"
    using level_all_found [OF inv lvl] by (rule found_orders_all)
  have rest: "resting_at s p b = map ?f (filter (?P \<circ> ?f) (map fst (orders b)))"
    using dist_keys by (simp add: resting_at_def map_snd_by_keys [OF dist_keys] filter_map comp_assoc)
  have "i \<in> set ids \<longleftrightarrow> i \<in> set (filter (?P \<circ> ?f) (map fst (orders b)))" for i
  proof -
    have "i \<in> set ids \<longleftrightarrow> (p, i) \<in> set (ladder_pairs (side_ladder s b))"
      using ladder_wf_slot_pairs [OF wf slot] by simp
    also have "\<dots> \<longleftrightarrow> (\<exists>od. map_of (orders b) i = Some od \<and> side od = s \<and> price od = p)"
      by (rule book_inv_slot_iff [OF inv])
    also have "\<dots> \<longleftrightarrow> i \<in> set (filter (?P \<circ> ?f) (map fst (orders b)))"
      by (auto simp: in_keys_iff)
    finally show ?thesis .
  qed
  then have "set ids = set (filter (?P \<circ> ?f) (map fst (orders b)))" by blast
  moreover have "distinct (filter (?P \<circ> ?f) (map fst (orders b)))" using dist_keys by simp
  ultimately have "mset ids = mset (filter (?P \<circ> ?f) (map fst (orders b)))"
    using dist_ids set_eq_iff_mset_eq_distinct by blast
  then show ?thesis by (simp add: found rest)
qed


subsection \<open>Price order of the levels\<close>

lemma better_sides: "better Bid = (\<lambda>p q. q < p)" "better Ask = (<)"
  by (simp_all add: better_def fun_eq_iff)

lemma price_levels_sorted:
  "book_inv b \<Longrightarrow> sorted_wrt (better s) (map fst (price_levels s b))"
proof -
  assume "book_inv b"
  then have "sorted_wrt (<) (map fst (side_ladder s b))"
    using book_inv_side_wf [of b s] by (simp add: ladder_wf_def)
  moreover have "map fst (rev L) = rev (map fst L)" for L :: ladder by (simp add: rev_map)
  ultimately show ?thesis
    by (cases s) (simp_all add: price_levels_def side_ladder_def better_sides sorted_wrt_rev)
qed

lemma better_irrefl [simp]: "\<not> better s p p"
  by (cases s) (simp_all add: better_def)

lemma better_asym: "better s p q \<Longrightarrow> \<not> better s q p"
  by (cases s) (auto simp: better_def)

subsection \<open>MBO rows\<close>

lemma get_mbo_side_levels:
  "get_mbo_side now b s k
     = take (unat (k * 3))
         (concat (map (\<lambda>(p, ids). map (mbo_row now) (found_orders (orders b) ids)) (take (unat k) (price_levels s b))))"
  by (simp add: get_mbo_side_def mbo_scan_take)

lemma mbo_row_price [simp]: "mbo_price (mbo_row now od) = price od"
  by (simp add: mbo_row_def)

lemma mbo_rows_prices:
  assumes inv: "book_inv b" and r: "r \<in> set (get_mbo_side now b s k)"
  shows "mbo_price r \<in> fst ` set (take (unat k) (price_levels s b))"
proof -
  from r have "r \<in> set (concat (map (\<lambda>(p, ids). map (mbo_row now) (found_orders (orders b) ids))
                                 (take (unat k) (price_levels s b))))"
    by (auto simp: get_mbo_side_levels dest: in_set_takeD)
  then obtain p ids where lvl: "(p, ids) \<in> set (take (unat k) (price_levels s b))"
      and "r \<in> mbo_row now ` set (found_orders (orders b) ids)"
    by auto
  then obtain od where od: "od \<in> set (found_orders (orders b) ids)" and rr: "r = mbo_row now od"
    by blast
  from lvl have "(p, ids) \<in> set (price_levels s b)" by (rule in_set_takeD)
  with inv od have "price od = p" using level_orders_slot by blast
  with lvl rr show ?thesis by force
qed

lemma unat_times_3_le: "unat (k * 3) \<le> 3 * unat k" for k :: u32
proof -
  have "unat (k * 3) = (unat k * 3) mod 2 ^ 32" by (simp add: unat_word_ariths)
  also have "\<dots> \<le> unat k * 3" by (rule mod_less_eq_dividend)
  finally show ?thesis by simp
qed

lemma sorted_concat_levels:
  assumes "sorted_wrt (better s) (map fst L)" and "\<forall>(p, rs) \<in> set L. \<forall>r \<in> set rs. f r = p"
  shows "sorted_wrt (\<lambda>r r'. \<not> better s (f r') (f r)) (concat (map snd L))"
  using assms
proof (induction L)
  case (Cons e L)
  obtain p rs where e: "e = (p, rs)" by fastforce
  from Cons.prems e have here: "\<forall>r \<in> set rs. f r = p"
    and later: "\<forall>(q, rs') \<in> set L. better s p q \<and> (\<forall>r \<in> set rs'. f r = q)"
    by auto
  have "sorted_wrt (\<lambda>r r'. \<not> better s (f r') (f r)) rs"
    using here by (induction rs) auto
  moreover have "\<not> better s (f r') (f r)" if "r \<in> set rs" and "r' \<in> set (concat (map snd L))" for r r'
    proof -
    from that(2) obtain q rs' where "(q, rs') \<in> set L" and "r' \<in> set rs'" by auto
    with later that(1) here have "better s (f r) (f r')" by auto
    then show ?thesis by (rule better_asym)
  qed
  moreover have "sorted_wrt (\<lambda>r r'. \<not> better s (f r') (f r)) (concat (map snd L))"
    using Cons by simp
  ultimately show ?case by (simp add: e sorted_wrt_append)
qed simp

lemma mbo_sorted_levels:
  assumes inv: "book_inv b"
  shows "sorted_wrt (\<lambda>r r'. \<not> better s (mbo_price r') (mbo_price r))
           (concat (map (\<lambda>(p, ids). map (mbo_row now) (found_orders (orders b) ids)) (price_levels s b)))"
proof -
  let ?L = "map (\<lambda>(p, ids). (p, map (mbo_row now) (found_orders (orders b) ids))) (price_levels s b)"
  have "map fst ?L = map fst (price_levels s b)" by (simp add: comp_def case_prod_beta)
  then have sorted: "sorted_wrt (better s) (map fst ?L)" using price_levels_sorted [OF inv, of s] by (simp only:)
  have "\<forall>(p, rs) \<in> set ?L. \<forall>r \<in> set rs. mbo_price r = p"
    using level_orders_slot [OF inv] by fastforce
  with sorted have "sorted_wrt (\<lambda>r r'. \<not> better s (mbo_price r') (mbo_price r)) (concat (map snd ?L))"
    by (rule sorted_concat_levels)
  moreover have "concat (map snd ?L)
      = concat (map (\<lambda>(p, ids). map (mbo_row now) (found_orders (orders b) ids)) (price_levels s b))"
    by (simp add: comp_def case_prod_unfold)
  ultimately show ?thesis by simp
qed


subsection \<open>MBP rows\<close>

lemma prefix_sums_Nil [simp]: "prefix_sums [] = []"
  by (simp add: prefix_sums_def)

lemma prefix_sums_Cons: "prefix_sums (x # xs) = x # map ((+) x) (prefix_sums xs)"
proof -
  have "[0..<length (x # xs)] = 0 # map Suc [0..<length xs]"
    by (simp add: upt_conv_Cons map_Suc_upt del: upt_Suc)
  then show ?thesis by (simp add: prefix_sums_def add.assoc)
qed

lemma mbp_scan_prices:
  "map mbp_price (mbp_scan now idx s cum L) = map fst (filter (\<lambda>(p, ids). found_orders idx ids \<noteq> []) L)"
  by (induction now idx s cum L rule: mbp_scan.induct) (simp_all add: Let_def)

lemma mbp_scan_sides: "r \<in> set (mbp_scan now idx s cum L) \<Longrightarrow> mbp_side r = s"
  by (induction now idx s cum L rule: mbp_scan.induct) (auto simp: Let_def split: if_splits)

lemma mbp_scan_cumulative:
  "map mbp_total_quantity (mbp_scan now idx s cum L)
     = map ((+) cum) (prefix_sums (map mbp_quantity (mbp_scan now idx s cum L)))"
  by (induction now idx s cum L rule: mbp_scan.induct)
     (simp_all add: Let_def prefix_sums_Cons comp_def add.assoc)

lemma mbp_scan_skip:
  "found_orders idx ids = [] \<Longrightarrow> mbp_scan now idx s cum ((p, ids) # L) = mbp_scan now idx s cum L"
  by simp

lemma mbp_scan_emit:
  "found_orders idx ids \<noteq> [] \<Longrightarrow>
   mbp_scan now idx s cum ((p, ids) # L) =
     \<lparr>mbp_price = p, mbp_quantity = sum_list (map quantity (found_orders idx ids)),
      mbp_order_count = of_nat (length (found_orders idx ids)), mbp_side = s,
      mbp_total_quantity = cum + sum_list (map quantity (found_orders idx ids)),
      mbp_avg_age_ms = sum_list (map (age_ms now) (found_orders idx ids)) div of_nat (length (found_orders idx ids))\<rparr>
     # mbp_scan now idx s (cum + sum_list (map quantity (found_orders idx ids))) L"
  by (simp add: Let_def)

lemma mbp_scan_row:
  "r \<in> set (mbp_scan now idx s cum L) \<Longrightarrow>
   \<exists>p ids. (p, ids) \<in> set L \<and> mbp_price r = p
     \<and> mbp_quantity r = sum_list (map quantity (found_orders idx ids))
     \<and> mbp_order_count r = of_nat (length (found_orders idx ids))
     \<and> mbp_avg_age_ms r = sum_list (map (age_ms now) (found_orders idx ids)) div of_nat (length (found_orders idx ids))"
proof (induction L arbitrary: cum)
  case (Cons e L)
  obtain p ids where e: "e = (p, ids)" by fastforce
  show ?case
  proof (cases "found_orders idx ids = []")
    case True
    with Cons e show ?thesis by (fastforce simp: mbp_scan_skip)
  next
    case False
    let ?os = "found_orders idx ids"
    let ?row = "\<lparr>mbp_price = p, mbp_quantity = sum_list (map quantity ?os),
      mbp_order_count = of_nat (length ?os), mbp_side = s,
      mbp_total_quantity = cum + sum_list (map quantity ?os),
      mbp_avg_age_ms = sum_list (map (age_ms now) ?os) div of_nat (length ?os)\<rparr>"
    from Cons.prems e False
    have "r = ?row \<or> r \<in> set (mbp_scan now idx s (cum + sum_list (map quantity ?os)) L)"
      by (simp del: mbp_scan.simps add: mbp_scan_emit)
    then show ?thesis
    proof
      assume "r = ?row"
      with e show ?thesis by force
    next
      assume "r \<in> set (mbp_scan now idx s (cum + sum_list (map quantity ?os)) L)"
      from Cons.IH [OF this] show ?thesis by force
    qed
  qed
qed simp


subsection \<open>Best bid and ask\<close>

lemma ladder_empty_iff_no_orders:
  "book_inv b \<Longrightarrow> side_ladder s b = [] \<longleftrightarrow> {od \<in> snd ` set (orders b). side od = s} = {}"
proof -
  assume inv: "book_inv b"
  have "side_ladder s b = [] \<longleftrightarrow> fst ` set (side_ladder s b) = {}" by simp
  with book_inv_keys [OF inv, of s] show ?thesis by simp
qed

lemma best_bid_ask_Max_Min:
  assumes inv: "book_inv b"
  shows "get_best_bid_ask b =
           (if {od \<in> snd ` set (orders b). side od = Bid} = {} then None
            else Some (Max (price ` {od \<in> snd ` set (orders b). side od = Bid})),
            if {od \<in> snd ` set (orders b). side od = Ask} = {} then None
            else Some (Min (price ` {od \<in> snd ` set (orders b). side od = Ask})))"
proof -
  have bid: "ladder_last_key (side_ladder Bid b)
               = (if side_ladder Bid b = [] then None else Some (Max (fst ` set (side_ladder Bid b))))"
    by (rule ladder_last_key_Max [OF book_inv_side_wf [OF inv]])
  have ask: "ladder_first_key (side_ladder Ask b)
               = (if side_ladder Ask b = [] then None else Some (Min (fst ` set (side_ladder Ask b))))"
    by (rule ladder_first_key_Min [OF book_inv_side_wf [OF inv]])
  have split: "get_best_bid_ask b = (ladder_last_key (side_ladder Bid b), ladder_first_key (side_ladder Ask b))"
    by (simp add: get_best_bid_ask_def side_ladder_def)
  show ?thesis
    unfolding split bid ask ladder_empty_iff_no_orders [OF inv] book_inv_keys [OF inv] ..
qed

lemmas projection_eval =
  get_mbo_side_def get_mbp_side_def get_best_bid_ask_def get_spread_info_def price_levels_def
  mbo_row_def spread_example_def mbp_example_def better_def

subsection \<open>Properties of the views\<close>

text \<open>
  Claim C9. The MBO loop of \<^verbatim>\<open>get_mbo_side\<close>, with its \<open>levels_count\<close>
  counter and \<open>break\<close>, equals the declarative view: the indexed orders of the first
  \<open>max_levels\<close> price levels in priority order, FIFO within a level, truncated to
  \<open>max_levels * 3\<close> rows (a \<open>u32\<close> product).
\<close>

theorem mbo_scan_equiv:
  "get_mbo_side now b s k
     = take (unat (k * 3))
         (concat (map (\<lambda>(p, ids). map (mbo_row now) (found_orders (orders b) ids)) (take (unat k) (price_levels s b))))"
  by (rule get_mbo_side_levels)

text \<open>
  Claim C10. MBO depth bounds: on a book satisfying the invariant, the rows show at most
  \<open>max_levels\<close> distinct prices and at most \<open>3 * max_levels\<close> orders.
\<close>

theorem mbo_depth_bounds:
  assumes inv: "book_inv b"
  shows "card (mbo_price ` set (get_mbo_side now b s k)) \<le> unat k
         \<and> length (get_mbo_side now b s k) \<le> 3 * unat k"
proof -
  have "mbo_price ` set (get_mbo_side now b s k) \<subseteq> fst ` set (take (unat k) (price_levels s b))"
    using mbo_rows_prices [OF inv] by blast
  then have "card (mbo_price ` set (get_mbo_side now b s k)) \<le> card (fst ` set (take (unat k) (price_levels s b)))"
    by (rule card_mono [rotated]) simp
  also have "\<dots> \<le> length (take (unat k) (price_levels s b))"
    by (metis card_image_le card_length finite_set le_trans length_map set_map)
  also have "\<dots> \<le> unat k" by simp
  finally have "card (mbo_price ` set (get_mbo_side now b s k)) \<le> unat k" .
  moreover have "length (get_mbo_side now b s k) \<le> 3 * unat k"
    using unat_times_3_le [of k] by (simp add: get_mbo_side_def)
  ultimately show ?thesis by simp
qed

theorem mbo_depth_bounds_witness:
  "book_inv spread_example
   \<and> card (mbo_price ` set (get_mbo_side 0 spread_example Bid 1)) \<le> 1
   \<and> length (get_mbo_side 0 spread_example Bid 1) \<le> 3"
proof -
  have h: "book_inv spread_example" by (simp add: spread_example_def book_eval)
  show ?thesis using h mbo_depth_bounds [OF h, of 0 Bid 1] by simp
qed

text \<open>
  Claim C11. The row cap \<open>max_levels * 3\<close> is computed in \<open>u32\<close> and wraps: for
  \<open>max_levels = 1431655766\<close> the cap is 2, so at most two orders are shown however many
  levels are asked for.
\<close>

theorem mbo_row_cap_wraps: "length (get_mbo_side now b s 1431655766) \<le> 2"
proof -
  have "unat (1431655766 * 3 :: u32) = 2" by simp
  then show ?thesis by (simp add: get_mbo_side_def)
qed

text \<open>
  MBO rows come in price priority: on a book satisfying the invariant no row is
  followed by a row with a strictly better price (higher for bids, lower for asks).
\<close>

theorem mbo_price_priority:
  assumes inv: "book_inv b"
  shows "sorted_wrt (\<lambda>r r'. \<not> better s (mbo_price r') (mbo_price r)) (get_mbo_side now b s k)"
proof -
  let ?f = "\<lambda>(p, ids). map (mbo_row now) (found_orders (orders b) ids)"
  have "concat (map ?f (price_levels s b))
          = concat (map ?f (take (unat k) (price_levels s b))) @ concat (map ?f (drop (unat k) (price_levels s b)))"
    by (metis append_take_drop_id concat_append map_append)
  with mbo_sorted_levels [OF inv, of s now]
  have "sorted_wrt (\<lambda>r r'. \<not> better s (mbo_price r') (mbo_price r)) (concat (map ?f (take (unat k) (price_levels s b))))"
    by (simp add: sorted_wrt_append)
  then show ?thesis by (simp add: get_mbo_side_levels)
qed

theorem mbo_price_priority_witness:
  "book_inv mbp_example
   \<and> sorted_wrt (\<lambda>r r'. \<not> better Bid (mbo_price r') (mbo_price r)) (get_mbo_side 0 mbp_example Bid 5)"
proof -
  have h: "book_inv mbp_example" by (simp add: mbp_example_def book_eval)
  show ?thesis using h mbo_price_priority [OF h, of Bid 0 5] by simp
qed


text \<open>
  Claim C12. MBP levels: on a book satisfying the invariant, \<^verbatim>\<open>get_mbp_side\<close>
  gives exactly one row per price of the first \<open>max_levels\<close> levels, in strict price
  priority (descending bids, ascending asks), so never more than \<open>max_levels\<close> rows.
\<close>

theorem mbp_levels_sorted:
  assumes inv: "book_inv b"
  shows "map mbp_price (get_mbp_side now b s k) = map fst (take (unat k) (price_levels s b))
         \<and> sorted_wrt (better s) (map mbp_price (get_mbp_side now b s k))
         \<and> length (get_mbp_side now b s k) \<le> unat k"
proof -
  have "filter (\<lambda>(p, ids). found_orders (orders b) ids \<noteq> []) (take (unat k) (price_levels s b))
          = take (unat k) (price_levels s b)"
    using level_nonempty [OF inv] by (auto simp: filter_id_conv dest: in_set_takeD)
  then have prices: "map mbp_price (get_mbp_side now b s k) = map fst (take (unat k) (price_levels s b))"
    by (simp add: get_mbp_side_def mbp_scan_prices)
  moreover have "sorted_wrt (better s) (map fst (take (unat k) (price_levels s b)))"
    using price_levels_sorted [OF inv, of s] by (simp add: take_map [symmetric])
  moreover have "length (get_mbp_side now b s k) \<le> unat k"
    using arg_cong [OF prices, of length] by simp
  ultimately show ?thesis by simp
qed

theorem mbp_levels_sorted_witness:
  "book_inv mbp_example
   \<and> map mbp_price (get_mbp_side 0 mbp_example Bid 5) = [99.99, 99.98]
   \<and> sorted_wrt (better Bid) (map mbp_price (get_mbp_side 0 mbp_example Bid 5))"
proof -
  have h: "book_inv mbp_example" by (simp add: mbp_example_def book_eval)
  show ?thesis using h mbp_levels_sorted [OF h, of 0 Bid 5]
    by (simp add: mbp_example_def book_eval projection_eval)
qed

text \<open>
  Claim C13. The cumulative column of an MBP view is the running sum of its quantity
  column: the \<open>j\<close>-th \<open>total_quantity\<close> is the \<open>u64\<close> sum of the first \<open>j + 1\<close>
  level quantities (both sides of the equation wrap alike).
\<close>

theorem mbp_cumulative:
  "map mbp_total_quantity (get_mbp_side now b s k) = prefix_sums (map mbp_quantity (get_mbp_side now b s k))"
proof -
  have "map ((+) 0) xs = xs" for xs :: "u64 list" by (induction xs) simp_all
  with mbp_scan_cumulative [of now "orders b" s 0] show ?thesis by (simp add: get_mbp_side_def)
qed

text \<open>
  Claim C14. Each MBP row aggregates exactly the orders resting at its price: on a book
  satisfying the invariant, its quantity is the \<open>u64\<close> sum of their quantities, its
  order count their number (as \<open>u32\<close>) and its average age the \<open>u64\<close> sum of their
  ages divided by their number.
\<close>

theorem mbp_aggregates:
  assumes inv: "book_inv b" and r: "r \<in> set (get_mbp_side now b s k)"
  shows "mbp_quantity r = sum_list (map quantity (resting_at s (mbp_price r) b))
         \<and> mbp_order_count r = of_nat (length (resting_at s (mbp_price r) b))
         \<and> mbp_avg_age_ms r = sum_list (map (age_ms now) (resting_at s (mbp_price r) b))
                               div of_nat (length (resting_at s (mbp_price r) b))"
proof -
  from r obtain p ids where lvl: "(p, ids) \<in> set (take (unat k) (price_levels s b))"
    and pr: "mbp_price r = p"
    and q: "mbp_quantity r = sum_list (map quantity (found_orders (orders b) ids))"
    and c: "mbp_order_count r = of_nat (length (found_orders (orders b) ids))"
    and a: "mbp_avg_age_ms r = sum_list (map (age_ms now) (found_orders (orders b) ids))
                                 div of_nat (length (found_orders (orders b) ids))"
    unfolding get_mbp_side_def by (blast dest: mbp_scan_row)
  from lvl have "(p, ids) \<in> set (price_levels s b)" by (rule in_set_takeD)
  then have m: "mset (found_orders (orders b) ids) = mset (resting_at s p b)"
    by (rule level_orders_mset [OF inv])
  then have "length (found_orders (orders b) ids) = length (resting_at s p b)"
    by (rule mset_eq_length)
  with m q c a pr show ?thesis by (simp add: sum_list_map_mset_eq [OF m])
qed

theorem mbp_aggregates_witness:
  "book_inv mbp_example
   \<and> hd (get_mbp_side 0 mbp_example Bid 5) \<in> set (get_mbp_side 0 mbp_example Bid 5)
   \<and> mbp_quantity (hd (get_mbp_side 0 mbp_example Bid 5)) = 50
   \<and> mbp_order_count (hd (get_mbp_side 0 mbp_example Bid 5)) = 1"
proof -
  have h: "book_inv mbp_example" by (simp add: mbp_example_def book_eval)
  have r: "hd (get_mbp_side 0 mbp_example Bid 5) \<in> set (get_mbp_side 0 mbp_example Bid 5)"
    by (simp add: mbp_example_def book_eval projection_eval)
  show ?thesis using h r mbp_aggregates [OF h r]
    by (simp add: mbp_example_def book_eval projection_eval resting_at_def)
qed

text \<open>
  Claim C15. Best bid and ask (\<^verbatim>\<open>get_best_bid_ask\<close>, the last key of the bid
  ladder and the first key of the ask ladder) refine the abstract definition: on a book
  satisfying the invariant they are the highest resting bid price and the lowest resting
  ask price, and absent exactly when that side has no order.
\<close>

theorem best_bid_ask_extremes:
  assumes inv: "book_inv b"
  shows "get_best_bid_ask b =
    (let bids = map price (filter (\<lambda>od. side od = Bid) (map snd (orders b)));
         asks = map price (filter (\<lambda>od. side od = Ask) (map snd (orders b)))
     in (if bids = [] then None else Some (Max (set bids)),
         if asks = [] then None else Some (Min (set asks))))"
proof -
  have "set (map price (filter (\<lambda>od. side od = s) (map snd (orders b))))
          = price ` {od \<in> snd ` set (orders b). side od = s}" for s
    by auto
  moreover have "map price (filter (\<lambda>od. side od = s) (map snd (orders b))) = []
          \<longleftrightarrow> {od \<in> snd ` set (orders b). side od = s} = {}" for s
    by (auto simp: filter_empty_conv)
  ultimately show ?thesis by (simp add: best_bid_ask_Max_Min [OF inv] Let_def)
qed
theorem best_bid_ask_extremes_witness:
  "book_inv spread_example
   \<and> get_best_bid_ask spread_example = (Some 100, Some 100.05)"
proof -
  have h: "book_inv spread_example" by (simp add: spread_example_def book_eval)
  show ?thesis using h best_bid_ask_extremes [OF h] by (simp add: spread_example_def book_eval)
qed

text \<open>
  The spread example of the spec: after adding bid \<open>b1\<close> at 100.00 and ask
  \<open>a1\<close> at 100.05 to an empty book, the best prices are (100.00, 100.05) and
  \<^verbatim>\<open>get_spread_info\<close> gives spread 0.05, mid 100.025 and
  \<open>0.05 / 100.025 * 10000\<close> (about 4.999) basis points.
\<close>

theorem spread_example_values:
  "get_best_bid_ask spread_example = (Some 100, Some 100.05)
   \<and> get_spread_info spread_example = (Some 0.05, Some 100.025, Some (0.05 / 100.025 * 10000))"
  by (simp add: projection_eval book_eval ladder_eval)

text \<open>
  The MBP example of the spec: with bids 99.98 (orders of 100 and 200) and
  99.99 (an order of 50), the two-level bid view is
  [(99.99, 50, 1 order, cumulative 50), (99.98, 300, 2 orders, cumulative 350)].
\<close>

theorem mbp_example_values:
  "map (\<lambda>r. (mbp_price r, mbp_quantity r, mbp_order_count r, mbp_total_quantity r))
       (get_mbp_side 0 mbp_example Bid 2)
     = [(99.99, 50, 1, 50), (99.98, 300, 2, 350)]"
  by (simp add: projection_eval book_eval ladder_eval)

end
