(* ===== verification/Activity.thy ===== *)
theory Activity
  imports Projection
begin

text \<open>
  The synthetic activity that drives every book (\<^verbatim>\<open>src/backend-sse/src/order_book.rs\<close>:
  \<^verbatim>\<open>simulate_activity\<close>, \<^verbatim>\<open>generate_random_activity\<close>,
  \<^verbatim>\<open>execute_activity\<close>, \<^verbatim>\<open>initialize_with_sample_data\<close>; the
  \<^verbatim>\<open>OrderActivity\<close> record of \<^verbatim>\<open>src/backend-sse/src/message.rs\<close>).
  The random number generator is replaced by its outputs: one \<open>draw\<close> record per call
  of \<^verbatim>\<open>generate_random_activity\<close>, holding every value that call may ask for.
  \<open>gen_range(lo..=hi)\<close> maps a raw draw into its range by remainder. The generator
  calls itself again when the book is empty; that call takes the next draw, so the
  recursion is structural on the draw list and running out of draws is \<open>None\<close>: a run
  in which the generator never returns.
\<close>

datatype activity_type = Add | Update | Cancel

record order_activity =
  activity_type :: activity_type
  act_order_id :: string
  act_symbol :: string
  act_price :: "ordered_float option"
  act_quantity :: "u64 option"
  act_side :: "side option"
  act_timestamp :: millis

text \<open>The values one call of \<^verbatim>\<open>generate_random_activity\<close> draws, in the order it draws them.\<close>

record draw =
  d_kind :: real
  d_side :: bool
  d_variation :: real
  d_quantity :: nat
  d_suffix :: nat
  d_pick :: nat
  d_delta :: nat

text \<open>\<open>rng.gen_range(lo..=hi)\<close> on a raw draw.\<close>

definition gen_range :: "int \<Rightarrow> int \<Rightarrow> nat \<Rightarrow> int" where
  "gen_range lo hi r = lo + int r mod (hi - lo + 1)"

text \<open>\<open>(price * 100.0).round() / 100.0\<close>: Rust rounds halves away from zero, which is
  \<open>round\<close> on the positive prices this is applied to.\<close>

definition round_cents :: "ordered_float \<Rightarrow> ordered_float" where
  "round_cents p = of_int (round (p * 100)) / 100"

text \<open>\<open>(order.quantity as i64 + delta).max(0) as u64\<close>, with the \<open>i64\<close> addition wrapping.\<close>

definition new_quantity :: "u64 \<Rightarrow> int \<Rightarrow> u64" where
  "new_quantity q delta = (let w = q + word_of_int delta in if sint w < 0 then 0 else w)"

definition string_of_int :: "int \<Rightarrow> string" where
  "string_of_int i = (if i < 0 then ''-'' @ string_of_nat (nat (- i)) else string_of_nat (nat i))"

text \<open>\<open>format!("order_{}_{}", Utc::now().timestamp_millis(), rng.gen::<u32>())\<close>.\<close>

definition fresh_order_id :: "millis \<Rightarrow> nat \<Rightarrow> string" where
  "fresh_order_id now suffix = ''order_'' @ string_of_int now @ ''_'' @ string_of_nat (suffix mod 2 ^ 32)"

text \<open>\<^verbatim>\<open>execute_activity\<close>: apply one activity to the book, ignoring its result.\<close>

definition execute_activity :: "millis \<Rightarrow> order_activity \<Rightarrow> order_book \<Rightarrow> order_book" where
  "execute_activity now a b =
     (case activity_type a of
        Add \<Rightarrow>
          (case (act_price a, act_quantity a, act_side a) of
             (Some p, Some q, Some s) \<Rightarrow> snd (add_order (new_order (act_order_id a) p q s now) b)
           | _ \<Rightarrow> b)
      | Update \<Rightarrow>
          (case act_quantity a of Some q \<Rightarrow> snd (update_order (act_order_id a) q now b) | None \<Rightarrow> b)
      | Cancel \<Rightarrow> snd (remove_order (act_order_id a) b))"

text \<open>
  \<^verbatim>\<open>generate_random_activity\<close>, branch by branch: a new order (draw below 0.4)
  near the best price of its side or the mid price; an update (below 0.7, book not empty)
  of a uniformly picked order by a delta in [-2000, 1000], reported as a cancel when the
  quantity reaches zero; a cancel of a picked order (book not empty); otherwise the call
  repeats with fresh draws. The update branch's \<open>else\<close> (picked id not found) cannot
  happen, as the id comes from the index's keys, but it is kept as the code has it.
\<close>

fun generate_random_activity ::
  "millis \<Rightarrow> order_book \<Rightarrow> draw list \<Rightarrow> (order_activity \<times> draw list) option" where
  "generate_random_activity now b [] = None"
| "generate_random_activity now b (d # ds) =
     (let best_bid = fst (get_best_bid_ask b);
          best_ask = snd (get_best_bid_ask b);
          mid_price = (case (best_bid, best_ask) of (Some bid, Some ask) \<Rightarrow> (bid + ask) / 2 | _ \<Rightarrow> 100);
          s = (if d_side d then Bid else Ask)
      in if d_kind d < 0.4 then
           (let base_price = (case s of
                                Bid \<Rightarrow> (case best_bid of Some bid \<Rightarrow> bid | None \<Rightarrow> mid_price)
                              | Ask \<Rightarrow> (case best_ask of Some ask \<Rightarrow> ask | None \<Rightarrow> mid_price));
                price_variation = (d_variation d - 0.5) * 0.2;
                p = max (base_price + price_variation) 0.01;
                q = word_of_int (gen_range 1000 10000 (d_quantity d))
            in Some (\<lparr>activity_type = Add, act_order_id = fresh_order_id now (d_suffix d),
                       act_symbol = symbol b, act_price = Some (round_cents p), act_quantity = Some q,
                       act_side = Some s, act_timestamp = now\<rparr>, ds))
         else if d_kind d < 0.7 \<and> orders b \<noteq> [] then
           (let ids = map fst (orders b); i = ids ! (d_pick d mod length ids)
            in case map_of (orders b) i of
                 Some od \<Rightarrow>
                   (let nq = new_quantity (quantity od) (gen_range (-2000) 1000 (d_delta d))
                    in Some (\<lparr>activity_type = (if 0 < nq then Update else Cancel), act_order_id = i,
                               act_symbol = symbol b, act_price = None,
                               act_quantity = (if 0 < nq then Some nq else None),
                               act_side = None, act_timestamp = now\<rparr>, ds))
               | None \<Rightarrow> generate_random_activity now b ds)
         else if orders b \<noteq> [] then
           (let ids = map fst (orders b); i = ids ! (d_pick d mod length ids)
            in Some (\<lparr>activity_type = Cancel, act_order_id = i, act_symbol = symbol b,
                       act_price = None, act_quantity = None, act_side = None,
                       act_timestamp = now\<rparr>, ds))
         else generate_random_activity now b ds)"

text \<open>
  The loop of \<^verbatim>\<open>simulate_activity\<close>: generate an activity on the current book,
  record it, apply it, \<open>n\<close> times. The result carries the activities, the book and the
  draws left.
\<close>

fun simulate_loop ::
  "millis \<Rightarrow> nat \<Rightarrow> order_book \<Rightarrow> draw list \<Rightarrow> (order_activity list \<times> order_book \<times> draw list) option" where
  "simulate_loop now 0 b ds = Some ([], b, ds)"
| "simulate_loop now (Suc n) b ds =
     (case generate_random_activity now b ds of
        None \<Rightarrow> None
      | Some (a, ds') \<Rightarrow>
          (case simulate_loop now n (execute_activity now a b) ds' of
             None \<Rightarrow> None
           | Some (acts, b', ds'') \<Rightarrow> Some (a # acts, b', ds'')))"

text \<open>\<^verbatim>\<open>simulate_activity\<close>: \<open>num_activities = rng.gen_range(1..=8)\<close>, then the loop.\<close>

definition simulate_activity ::
  "millis \<Rightarrow> nat \<Rightarrow> order_book \<Rightarrow> draw list \<Rightarrow> (order_activity list \<times> order_book \<times> draw list) option" where
  "simulate_activity now r b ds = simulate_loop now (nat (gen_range 1 8 r)) b ds"

text \<open>
  The seeded orders of \<^verbatim>\<open>initialize_with_sample_data\<close>: the \<open>i\<close>-th bid one
  tick below 99.95 per step, the \<open>i\<close>-th ask one tick above 100.00 per step, each with a
  quantity in [1000, 10000] and a resting time backdated by up to 59999 ms. The draws are
  indexed by the order's position among the 60 insertions.
\<close>

definition sample_order ::
  "millis \<Rightarrow> side \<Rightarrow> nat \<Rightarrow> nat \<times> nat \<Rightarrow> order" where
  "sample_order now s i r =
     (let q = word_of_int (gen_range 1000 10000 (fst r))
      in \<lparr>order_id = (case s of Bid \<Rightarrow> ''bid_'' | Ask \<Rightarrow> ''ask_'') @ string_of_nat i,
          price = round_cents (case s of Bid \<Rightarrow> 100 - 0.05 - real i * 0.01 | Ask \<Rightarrow> 100 + real i * 0.01),
          quantity = q, side = s, timestamp = now - gen_range 0 59999 (snd r),
          original_quantity = q\<rparr>)"

definition initialize_with_sample_data ::
  "millis \<Rightarrow> (nat \<Rightarrow> nat \<times> nat) \<Rightarrow> order_book \<Rightarrow> order_book" where
  "initialize_with_sample_data now rng b =
     fold (\<lambda>i b. snd (add_order (sample_order now Ask i (rng (30 + i))) b)) [0..<30]
       (fold (\<lambda>i b. snd (add_order (sample_order now Bid i (rng i)) b)) [0..<30] b)"

text \<open>The 60 orders \<^verbatim>\<open>initialize_with_sample_data\<close> inserts, in insertion order.\<close>

definition sample_orders :: "millis \<Rightarrow> (nat \<Rightarrow> nat \<times> nat) \<Rightarrow> order list" where
  "sample_orders now rng =
     map (\<lambda>i. sample_order now Bid i (rng i)) [0..<30]
     @ map (\<lambda>i. sample_order now Ask i (rng (30 + i))) [0..<30]"

text \<open>Two draws used by the examples: one that asks for a new order, one that asks for a cancel.\<close>

definition add_draw :: draw where
  "add_draw = \<lparr>d_kind = 0.1, d_side = True, d_variation = 0.5, d_quantity = 500,
                d_suffix = 7, d_pick = 0, d_delta = 0\<rparr>"

definition cancel_draw :: draw where
  "cancel_draw = \<lparr>d_kind = 0.9, d_side = False, d_variation = 0.5, d_quantity = 0,
                   d_suffix = 0, d_pick = 1, d_delta = 0\<rparr>"

subsection \<open>Executing an activity\<close>

lemma execute_activity_inv: "book_inv b \<Longrightarrow> book_inv (execute_activity now a b)"
  by (auto simp: execute_activity_def add_order_inv update_order_inv remove_order_inv
           split: activity_type.splits option.splits)

lemma simulate_loop_inv:
  "simulate_loop now n b ds = Some (acts, b', ds') \<Longrightarrow> book_inv b \<Longrightarrow> book_inv b'"
proof (induction now n b ds arbitrary: acts b' ds' rule: simulate_loop.induct)
  case (2 now n b ds)
  then show ?case
    by (auto simp: execute_activity_inv split: option.splits prod.splits)
qed simp

subsection \<open>Generation: draws, ranges and fields\<close>

lemma gen_range_bounds: "lo \<le> hi \<Longrightarrow> lo \<le> gen_range lo hi r \<and> gen_range lo hi r \<le> hi"
  using pos_mod_bound [of "hi - lo + 1" "int r"] by (simp add: gen_range_def)

lemma unat_word_of_int_small:
  "0 \<le> x \<Longrightarrow> x < 2 ^ LENGTH('a) \<Longrightarrow> unat (word_of_int x :: 'a::len word) = nat x"
  by (simp add: unat_eq_nat_uint uint_word_of_int_eq take_bit_int_eq_self)

lemma round_cents_ge: "0.01 \<le> p \<Longrightarrow> 0.01 \<le> round_cents p"
proof -
  assume "0.01 \<le> p"
  then have "round (1::real) \<le> round (p * 100)" by (intro round_mono) simp
  then have "1 \<le> round (p * 100)" by simp
  then show ?thesis by (simp add: round_cents_def)
qed

lemma round_cents_int: "round_cents (of_int n / 100) = of_int n / 100"
  by (simp add: round_cents_def)

lemma sint_small:
  "- (2 ^ 63) \<le> x \<Longrightarrow> x < 2 ^ 63 \<Longrightarrow> sint (word_of_int x :: u64) = x"
  by (simp add: sint_sbintrunc' signed_take_bit_int_eq_self)

lemma new_quantity_clamp:
  assumes "unat q < 2 ^ 62" "-2000 \<le> d" "d \<le> 1000"
  shows "unat (new_quantity q d) = nat (int (unat q) + d)"
proof -
  have "int (unat q) < int (2 ^ 62)"
    using assms(1) by (simp only: of_nat_less_iff)
  then have u: "uint q < 2 ^ 62" "0 \<le> uint q"
    by simp_all
  have w: "q + word_of_int d = (word_of_int (uint q + d) :: u64)"
    by (simp add: wi_hom_add)
  have r: "sint (word_of_int (uint q + d) :: u64) = uint q + d"
  proof (rule sint_small)
    have p: "(2::int) ^ 63 = 9223372036854775808" "(2::int) ^ 62 = 4611686018427387904"
      by simp_all
    show "- (2 ^ 63) \<le> uint q + d" "uint q + d < 2 ^ 63"
      using assms(2,3) u p by linarith+
  qed
  have nq: "new_quantity q d = (if uint q + d < 0 then 0 else word_of_int (uint q + d))"
    unfolding new_quantity_def Let_def w r ..
  have iu: "int (unat q) = uint q"
    by simp
  show ?thesis
  proof (cases "uint q + d < 0")
    case True
    then show ?thesis
      unfolding nq iu by simp
  next
    case False
    then have "unat (word_of_int (uint q + d) :: u64) = nat (uint q + d)"
      using u assms(3) by (intro unat_word_of_int_small) simp_all
    with False show ?thesis
      unfolding nq iu by simp
  qed
qed

lemma generate_empty_book_add:
  "orders b = [] \<Longrightarrow> generate_random_activity now b ds = Some (a, ds') \<Longrightarrow> activity_type a = Add"
  by (induction ds) (auto simp: Let_def split: if_splits)

lemma generate_empty_book_returns:
  "orders b = [] \<Longrightarrow>
   generate_random_activity now b ds \<noteq> None \<longleftrightarrow> (\<exists>d \<in> set ds. d_kind d < 0.4)"
  by (induction ds) (auto simp: Let_def)

lemma pick_in_keys:
  "orders b \<noteq> [] \<Longrightarrow> map fst (orders b) ! (k mod length (map fst (orders b))) \<in> fst ` set (orders b)"
  using nth_mem [of "k mod length (orders b)" "map fst (orders b)"] by simp

lemma generate_nonempty_one_draw:
  "orders b \<noteq> [] \<Longrightarrow> \<exists>a. generate_random_activity now b (d # ds) = Some (a, ds)"
  using pick_in_keys [of b "d_pick d"]
  by (auto simp: Let_def in_keys_iff split: option.splits)


lemma gen_quantity_bounds:
  "1000 \<le> unat (word_of_int (gen_range 1000 10000 r) :: u64)
   \<and> unat (word_of_int (gen_range 1000 10000 r) :: u64) \<le> 10000"
proof -
  have g: "1000 \<le> gen_range 1000 10000 r" "gen_range 1000 10000 r \<le> 10000"
    using gen_range_bounds [of 1000 10000 r] by simp_all
  then have "unat (word_of_int (gen_range 1000 10000 r) :: u64) = nat (gen_range 1000 10000 r)"
    by (intro unat_word_of_int_small) simp_all
  with g show ?thesis by linarith
qed

lemma round_cents_max: "1 / 100 \<le> round_cents (max x (1 / 100))"
  using round_cents_ge [of "max x (1 / 100)"] by simp

lemma round_cents_max_scaled: "1 \<le> round_cents (max x (1 / 100)) * 100"
  using round_cents_max [of x] by simp

lemma generate_add_fields:
  "generate_random_activity now b ds = Some (a, ds') \<Longrightarrow> activity_type a = Add \<Longrightarrow>
   \<exists>p q s. act_price a = Some p \<and> act_quantity a = Some q \<and> act_side a = Some s
          \<and> 0.01 \<le> p \<and> 1000 \<le> unat q \<and> unat q \<le> 10000"
  by (induction ds) (auto simp: Let_def gen_quantity_bounds round_cents_max_scaled split: if_splits option.splits)

lemma generate_other_fields:
  "generate_random_activity now b ds = Some (a, ds') \<Longrightarrow> activity_type a \<noteq> Add \<Longrightarrow>
   act_order_id a \<in> fst ` set (orders b)
   \<and> (activity_type a = Update \<longrightarrow> (\<exists>q. act_quantity a = Some q \<and> 0 < q))"
proof (induction ds)
  case (Cons d ds)
  then show ?case
    using pick_in_keys [of b "d_pick d"]
    by (auto simp: Let_def split: if_splits option.splits)
qed simp

lemma sequence_update_order_present:
  "map_of (orders b) i = Some od \<Longrightarrow> q \<noteq> 0 \<Longrightarrow>
   sequence (snd (update_order i q now b)) = sequence b + 1"
  by (simp add: update_order_def)

lemma execute_activity_length:
  assumes "book_inv b"
  shows "length (orders b) \<le> Suc (length (orders (execute_activity now a b)))"
proof -
  have d: "distinct (map fst (orders b))"
    using assms by (simp add: book_inv_def)
  have del: "length (orders b) \<le> Suc (length (AList.delete k (orders b)))" for k
    by (rule length_delete_distinct [OF d])
  have add: "length (orders b) \<le> Suc (length (orders (snd (add_order od b))))" for od
    using del [of "order_id od"] length_update_ge [of "AList.delete (order_id od) (orders b)" "order_id od" od]
    by (simp add: orders_add_order)
  have upd: "length (orders b) \<le> Suc (length (orders (snd (update_order i q now b))))" for i q
    using del [of i]
    by (auto simp: update_order_def orders_remove_order intro: le_SucI length_update_ge
             split: option.splits)
  show ?thesis
    using del add upd
    by (auto simp: execute_activity_def orders_remove_order split: activity_type.splits option.splits)
qed

lemma simulate_loop_live:
  "book_inv b \<Longrightarrow> n \<le> length (orders b) \<Longrightarrow> n \<le> length ds \<Longrightarrow>
   \<exists>acts b'. simulate_loop now n b ds = Some (acts, b', drop n ds) \<and> length acts = n \<and> book_inv b'"
proof (induction n arbitrary: b ds)
  case (Suc n)
  obtain d ds0 where ds: "ds = d # ds0"
    using Suc.prems(3) by (cases ds) auto
  have "orders b \<noteq> []"
    using Suc.prems(2) by auto
  then obtain a where g: "generate_random_activity now b ds = Some (a, ds0)"
    using generate_nonempty_one_draw ds by blast
  let ?b1 = "execute_activity now a b"
  have "book_inv ?b1" "n \<le> length (orders ?b1)" "n \<le> length ds0"
    using execute_activity_inv [OF Suc.prems(1)] execute_activity_length [OF Suc.prems(1), of now a]
      Suc.prems ds by auto
  then obtain acts b' where "simulate_loop now n ?b1 ds0 = Some (acts, b', drop n ds0)"
      "length acts = n" "book_inv b'"
    using Suc.IH by blast
  then show ?case
    using g ds by simp
qed simp


lemma initialize_fold:
  "initialize_with_sample_data now rng b = fold (\<lambda>od b. snd (add_order od b)) (sample_orders now rng) b"
  by (simp add: initialize_with_sample_data_def sample_orders_def fold_map comp_def)

lemma fold_add_order_inv: "book_inv b \<Longrightarrow> book_inv (fold (\<lambda>od b. snd (add_order od b)) os b)"
  by (induction os arbitrary: b) (simp_all add: add_order_inv)

lemma add_order_fresh:
  "order_id od \<notin> fst ` set (orders b) \<Longrightarrow>
   orders (snd (add_order od b)) = orders b @ [(order_id od, od)]
   \<and> sequence (snd (add_order od b)) = sequence b + 1"
  by (simp add: orders_add_order sequence_add_order_eq delete_id update_absent map_of_None_iff)

lemma fold_add_fresh:
  "distinct (map order_id os) \<Longrightarrow> (\<forall>od \<in> set os. order_id od \<notin> fst ` set (orders b)) \<Longrightarrow>
   orders (fold (\<lambda>od b. snd (add_order od b)) os b) = orders b @ map (\<lambda>od. (order_id od, od)) os
   \<and> sequence (fold (\<lambda>od b. snd (add_order od b)) os b) = sequence b + of_nat (length os)"
proof (induction os arbitrary: b)
  case (Cons od os)
  let ?b1 = "snd (add_order od b)"
  have f: "orders ?b1 = orders b @ [(order_id od, od)]" "sequence ?b1 = sequence b + 1"
    using add_order_fresh [of od b] Cons.prems by simp_all
  have "\<forall>od' \<in> set os. order_id od' \<notin> fst ` set (orders ?b1)"
  proof
    fix od' assume o: "od' \<in> set os"
    have "order_id od \<notin> order_id ` set os"
      using Cons.prems(1) by simp
    then have "order_id od' \<noteq> order_id od"
      using o by (metis image_eqI)
    then show "order_id od' \<notin> fst ` set (orders ?b1)"
      using o Cons.prems(2) by (simp add: f)
  qed
  then show ?case
    using Cons.IH [of ?b1] Cons.prems by (simp add: f)
qed simp

lemma sample_order_fields [simp]:
  "order_id (sample_order now s i r) = (case s of Bid \<Rightarrow> ''bid_'' | Ask \<Rightarrow> ''ask_'') @ string_of_nat i"
  "side (sample_order now s i r) = s"
  "price (sample_order now Bid i r) = (9995 - real i) / 100"
  "price (sample_order now Ask i r) = (10000 + real i) / 100"
proof -
  have bid: "100 - 0.05 - real i * 0.01 = real_of_int (9995 - int i) / 100"
    by simp
  have ask: "100 + real i * 0.01 = real_of_int (10000 + int i) / 100"
    by simp
  show "order_id (sample_order now s i r) = (case s of Bid \<Rightarrow> ''bid_'' | Ask \<Rightarrow> ''ask_'') @ string_of_nat i"
    "side (sample_order now s i r) = s"
    by (simp_all add: sample_order_def Let_def)
  show "price (sample_order now Bid i r) = (9995 - real i) / 100"
    unfolding sample_order_def Let_def by (simp only: order.simps side.case bid round_cents_int) simp
  show "price (sample_order now Ask i r) = (10000 + real i) / 100"
    unfolding sample_order_def Let_def by (simp only: order.simps side.case ask round_cents_int) simp
qed

lemma sample_orders_ids_distinct: "distinct (map order_id (sample_orders now rng))"
  by (auto simp: sample_orders_def distinct_map inj_on_def string_of_nat_inj)


lemma initialize_fresh_orders:
  "book_inv (initialize_with_sample_data now rng (new_order_book sy))
   \<and> orders (initialize_with_sample_data now rng (new_order_book sy))
       = map (\<lambda>od. (order_id od, od)) (sample_orders now rng)
   \<and> sequence (initialize_with_sample_data now rng (new_order_book sy)) = 60"
  using fold_add_fresh [of "sample_orders now rng" "new_order_book sy"] sample_orders_ids_distinct [of now rng]
    fold_add_order_inv [OF book_inv_new_order_book, of "sample_orders now rng" sy]
  by (simp add: initialize_fold new_order_book_def sample_orders_def)

lemma sample_orders_side:
  "{od \<in> set (sample_orders now rng). side od = Bid} = (\<lambda>i. sample_order now Bid i (rng i)) ` {0..<30}"
  "{od \<in> set (sample_orders now rng). side od = Ask} = (\<lambda>i. sample_order now Ask i (rng (30 + i))) ` {0..<30}"
  by (auto simp: sample_orders_def)

lemma sample_bid_prices_Max: "Max ((\<lambda>i. (9995 - real i) / 100) ` {0..<30::nat}) = 9995 / 100"
  by (rule Max_eqI) (auto intro: image_eqI [of _ _ 0])

lemma sample_ask_prices_Min: "Min ((\<lambda>i. (10000 + real i) / 100) ` {0..<30::nat}) = 100"
  by (rule Min_eqI) (auto intro: image_eqI [of _ _ 0])

lemma initialize_fresh_best:
  "get_best_bid_ask (initialize_with_sample_data now rng (new_order_book sy)) = (Some (9995 / 100), Some 100)"
proof -
  let ?b = "initialize_with_sample_data now rng (new_order_book sy)"
  have inv: "book_inv ?b" and o: "orders ?b = map (\<lambda>od. (order_id od, od)) (sample_orders now rng)"
    using initialize_fresh_orders by blast+
  have s: "snd ` set (orders ?b) = set (sample_orders now rng)"
    by (simp add: o image_image)
  show ?thesis
    unfolding best_bid_ask_Max_Min [OF inv] s sample_orders_side image_image
    by (simp add: sample_bid_prices_Max sample_ask_prices_Min)
qed


lemmas activity_eval = add_draw_def cancel_draw_def gen_range_def round_cents_def fresh_order_id_def
  string_of_int_def new_quantity_def execute_activity_def simulate_activity_def

lemma generate_execute_sequence:
  assumes "generate_random_activity now b ds = Some (a, ds')"
  shows "sequence (execute_activity now a b) \<in> {sequence b + 1, sequence b + 2}"
proof (cases "activity_type a")
  case Add
  then obtain p q s where "act_price a = Some p" "act_quantity a = Some q" "act_side a = Some s"
    using generate_add_fields [OF assms] by blast
  with Add show ?thesis
    by (simp add: execute_activity_def sequence_add_order_eq new_order_def)
next
  case Update
  then obtain q od where "act_quantity a = Some q" "0 < q" "map_of (orders b) (act_order_id a) = Some od"
    using generate_other_fields [OF assms] by (auto simp: in_keys_iff)
  with Update show ?thesis
    by (simp add: execute_activity_def sequence_update_order_present)
next
  case Cancel
  then obtain od where "map_of (orders b) (act_order_id a) = Some od"
    using generate_other_fields [OF assms] by (auto simp: in_keys_iff)
  with Cancel show ?thesis
    by (simp add: execute_activity_def sequence_remove_order)
qed

subsection \<open>Properties of the activity generator\<close>

text \<open>
  C16 (liveness, termination): on a well-formed book holding at least eight orders,
  \<^verbatim>\<open>simulate_activity\<close> returns whenever at least eight draws are available: it
  produces between one and eight activities, consumes exactly one draw per activity (no
  retry happens, because each activity removes at most one order), and leaves a
  well-formed book.
\<close>
theorem simulate_activity_returns:
  assumes "book_inv b" "8 \<le> length (orders b)" "8 \<le> length ds"
  shows "\<exists>acts b'. simulate_activity now r b ds = Some (acts, b', drop (length acts) ds)
                   \<and> 1 \<le> length acts \<and> length acts \<le> 8 \<and> book_inv b'"
proof -
  let ?n = "nat (gen_range 1 8 r)"
  have n: "1 \<le> ?n" "?n \<le> 8"
    using gen_range_bounds [of 1 8 r] by linarith+
  then obtain acts b' where "simulate_loop now ?n b ds = Some (acts, b', drop ?n ds)"
      "length acts = ?n" "book_inv b'"
    using simulate_loop_live [of b ?n ds now] assms by fastforce
  with n show ?thesis
    by (auto simp: simulate_activity_def)
qed

theorem simulate_activity_returns_witness:
  "book_inv (initialize_with_sample_data 0 (\<lambda>i. (i, i)) (new_order_book ''AAPL''))
   \<and> 8 \<le> length (orders (initialize_with_sample_data 0 (\<lambda>i. (i, i)) (new_order_book ''AAPL'')))
   \<and> (\<exists>acts b'. simulate_activity 0 3 (initialize_with_sample_data 0 (\<lambda>i. (i, i)) (new_order_book ''AAPL''))
                   (replicate 8 cancel_draw) = Some (acts, b', drop (length acts) (replicate 8 cancel_draw))
                 \<and> 1 \<le> length acts \<and> length acts \<le> 8 \<and> book_inv b')"
proof -
  have h: "book_inv (initialize_with_sample_data 0 (\<lambda>i. (i, i)) (new_order_book ''AAPL''))"
    "8 \<le> length (orders (initialize_with_sample_data 0 (\<lambda>i. (i, i)) (new_order_book ''AAPL'')))"
    using initialize_fresh_orders [of 0 "\<lambda>i. (i, i)" "''AAPL''"] by (simp_all add: sample_orders_def)
  show ?thesis
    using h simulate_activity_returns [OF h, of "replicate 8 cancel_draw" 0 3] by simp
qed

text \<open>
  Every run of \<^verbatim>\<open>simulate_activity\<close> that returns leaves the book well formed when it
  started well formed.
\<close>
theorem simulate_activity_keeps_inv:
  "book_inv b \<Longrightarrow> \<forall>res \<in> set_option (simulate_activity now r b ds). book_inv (fst (snd res))"
  by (auto simp: simulate_activity_def intro: simulate_loop_inv)

theorem simulate_activity_keeps_inv_witness:
  "book_inv (new_order_book ''X'')
   \<and> (case simulate_activity 0 0 (new_order_book ''X'') [add_draw] of
         None \<Rightarrow> False | Some res \<Rightarrow> book_inv (fst (snd res)))"
proof -
  have h: "book_inv (new_order_book ''X'')" by simp
  show ?thesis
    using h simulate_activity_keeps_inv [OF h, of 0 0 "[add_draw]"]
    by (simp add: activity_eval projection_eval book_eval ladder_eval Let_def)
qed

text \<open>
  C17 (functional behaviour of \<^verbatim>\<open>execute_activity\<close>): on a well-formed book, an
  \<open>Add\<close> with price, quantity and side makes its id rest with exactly those values, in the
  ladder of its side at its price; an \<open>Update\<close> to a non-zero quantity sets the quantity of
  the resting order; an \<open>Update\<close> to zero and a \<open>Cancel\<close> remove the id; the book stays
  well formed.
\<close>

theorem execute_activity_spec:
  assumes inv: "book_inv b"
  shows "(activity_type a = Add \<and> act_price a = Some p \<and> act_quantity a = Some q \<and> act_side a = Some s \<longrightarrow>
            map_of (orders (execute_activity now a b)) (act_order_id a) = Some (new_order (act_order_id a) p q s now)
            \<and> (p, act_order_id a) \<in> set (ladder_pairs (side_ladder s (execute_activity now a b))))
         \<and> (activity_type a = Update \<and> act_quantity a = Some q \<and> q \<noteq> 0 \<and> map_of (orders b) (act_order_id a) = Some od \<longrightarrow>
            map_of (orders (execute_activity now a b)) (act_order_id a) = Some (update_quantity q now od))
         \<and> (activity_type a = Update \<and> act_quantity a = Some 0 \<longrightarrow>
            map_of (orders (execute_activity now a b)) (act_order_id a) = None)
         \<and> (activity_type a = Cancel \<longrightarrow> map_of (orders (execute_activity now a b)) (act_order_id a) = None)
         \<and> book_inv (execute_activity now a b)"
proof -
  let ?i = "act_order_id a"
  have add: "map_of (orders (snd (add_order (new_order ?i p q s now) b))) ?i = Some (new_order ?i p q s now)
             \<and> (p, ?i) \<in> set (ladder_pairs (side_ladder s (snd (add_order (new_order ?i p q s now) b))))"
  proof -
    have "book_inv (snd (add_order (new_order ?i p q s now) b))"
      using inv by (rule add_order_inv)
    moreover have m: "map_of (orders (snd (add_order (new_order ?i p q s now) b))) ?i = Some (new_order ?i p q s now)"
      by (simp add: map_of_add_order new_order_def)
    ultimately show ?thesis
      using book_inv_slot_iff by (auto simp: new_order_def)
  qed
  have upd: "q \<noteq> 0 \<Longrightarrow> map_of (orders b) ?i = Some od \<Longrightarrow>
             map_of (orders (snd (update_order ?i q now b))) ?i = Some (update_quantity q now od)"
    by (simp add: update_order_def update_conv')
  have rem: "map_of (orders (snd (remove_order ?i b))) ?i = None"
    by (simp add: orders_remove_order delete_conv')
  have "book_inv (execute_activity now a b)"
    using inv by (auto simp: execute_activity_def intro: add_order_inv update_order_inv remove_order_inv
                       split: activity_type.split option.split)
  with add upd rem show ?thesis
    by (auto simp: execute_activity_def update_order_def split: activity_type.split)
qed

theorem execute_activity_spec_witness:
  "map_of (orders (execute_activity 0 \<lparr>activity_type = Add, act_order_id = ''o1'', act_symbol = ''X'', act_price = Some 100,
                  act_quantity = Some 5, act_side = Some Bid, act_timestamp = 0\<rparr> (new_order_book ''X''))) ''o1''
     = Some (new_order ''o1'' 100 5 Bid 0)"
  using execute_activity_spec [OF book_inv_new_order_book, where a = "\<lparr>activity_type = Add, act_order_id = ''o1'', act_symbol = ''X'', act_price = Some 100,
                  act_quantity = Some 5, act_side = Some Bid, act_timestamp = 0\<rparr>"
      and p = 100 and q = 5 and s = Bid and now = 0]
  by simp

text \<open>
  On an empty book the generator can only produce a new order: the update and
  cancel branches are guarded by \<^verbatim>\<open>!self.orders.is_empty()\<close>.
\<close>
theorem generate_empty_book_adds:
  "orders b = [] \<Longrightarrow> \<forall>p \<in> set_option (generate_random_activity now b ds). activity_type (fst p) = Add"
  using generate_empty_book_add by fastforce

theorem generate_empty_book_adds_witness:
  "orders (new_order_book ''X'') = []
   \<and> (case generate_random_activity 0 (new_order_book ''X'') [cancel_draw, add_draw] of
         None \<Rightarrow> False | Some p \<Rightarrow> activity_type (fst p) = Add)"
proof -
  have h: "orders (new_order_book ''X'') = []" by (simp add: new_order_book_def)
  show ?thesis
    using h generate_empty_book_adds [OF h, of 0 "[cancel_draw, add_draw]"]
    by (simp add: activity_eval projection_eval book_eval ladder_eval Let_def)
qed

text \<open>
  C18 (termination): on an empty book the generator's self-recursion ends exactly when a
  draw selects the new-order branch; with no such draw it never returns.
\<close>
theorem generate_empty_book_retries:
  "orders b = [] \<Longrightarrow>
   generate_random_activity now b ds \<noteq> None \<longleftrightarrow> (\<exists>d \<in> set ds. d_kind d < 0.4)"
  by (rule generate_empty_book_returns)

theorem generate_empty_book_retries_witness:
  "orders (new_order_book ''X'') = []
   \<and> generate_random_activity 0 (new_order_book ''X'') [cancel_draw, add_draw] \<noteq> None
   \<and> generate_random_activity 0 (new_order_book ''X'') [cancel_draw, cancel_draw] = None"
proof -
  have h: "orders (new_order_book ''X'') = []" by (simp add: new_order_book_def)
  show ?thesis
    using h generate_empty_book_retries [OF h, of 0 "[cancel_draw, add_draw]"]
      generate_empty_book_retries [OF h, of 0 "[cancel_draw, cancel_draw]"]
    by (simp add: activity_eval)
qed

text \<open>
  C19 (bounds): a generated new order carries a price, a quantity and a side; the price
  is at least 0.01 after rounding to cents and the quantity lies in [1000, 10000].
\<close>
theorem generate_add_bounds:
  "\<forall>p \<in> set_option (generate_random_activity now b ds). activity_type (fst p) = Add \<longrightarrow>
     (\<exists>pr q s. act_price (fst p) = Some pr \<and> act_quantity (fst p) = Some q \<and> act_side (fst p) = Some s
              \<and> 0.01 \<le> pr \<and> 1000 \<le> unat q \<and> unat q \<le> 10000)"
  using generate_add_fields by fastforce

theorem generate_add_bounds_witness:
  "case generate_random_activity 0 (new_order_book ''X'') [add_draw] of
     None \<Rightarrow> False
   | Some p \<Rightarrow> activity_type (fst p) = Add
       \<and> (\<exists>pr q s. act_price (fst p) = Some pr \<and> act_quantity (fst p) = Some q \<and> act_side (fst p) = Some s
                \<and> 0.01 \<le> pr \<and> 1000 \<le> unat q \<and> unat q \<le> 10000)"
  using generate_add_bounds [of 0 "new_order_book ''X''" "[add_draw]"]
  by (simp add: activity_eval projection_eval book_eval ladder_eval Let_def)

text \<open>
  C20 (safety): a generated update or cancel names an order resting in the book, and an
  update carries a positive quantity.
\<close>
theorem generate_targets_resting:
  "\<forall>p \<in> set_option (generate_random_activity now b ds). activity_type (fst p) \<noteq> Add \<longrightarrow>
     act_order_id (fst p) \<in> fst ` set (orders b)
     \<and> (activity_type (fst p) = Update \<longrightarrow> (\<exists>q. act_quantity (fst p) = Some q \<and> 0 < q))"
  using generate_other_fields by fastforce

theorem generate_targets_resting_witness:
  "case generate_random_activity 0 spread_example [cancel_draw] of
     None \<Rightarrow> False
   | Some p \<Rightarrow> activity_type (fst p) = Cancel \<and> act_order_id (fst p) \<in> fst ` set (orders spread_example)"
  using generate_targets_resting [of 0 spread_example "[cancel_draw]"]
  by (simp add: activity_eval projection_eval book_eval ladder_eval Let_def)

text \<open>
  Every generated activity changes the book when executed: its sequence number
  advances by one (or by two, for a new order whose id is already resting).
\<close>
theorem generated_activity_applies:
  "\<forall>p \<in> set_option (generate_random_activity now b ds).
     sequence (execute_activity now (fst p) b) \<in> {sequence b + 1, sequence b + 2}"
  using generate_execute_sequence by fastforce

theorem generated_activity_applies_witness:
  "case generate_random_activity 0 spread_example [cancel_draw] of
     None \<Rightarrow> False
   | Some p \<Rightarrow> sequence (execute_activity 0 (fst p) spread_example)
                  \<in> {sequence spread_example + 1, sequence spread_example + 2}"
  using generated_activity_applies [of 0 spread_example "[cancel_draw]"]
  by (simp add: activity_eval projection_eval book_eval ladder_eval Let_def)

text \<open>
  For quantities below \<open>2^62\<close> and the deltas the generator draws,
  \<open>(quantity as i64 + delta).max(0) as u64\<close> is the quantity plus the delta, clamped at zero.
\<close>
theorem new_quantity_clamps:
  "unat q < 2 ^ 62 \<Longrightarrow> -2000 \<le> d \<Longrightarrow> d \<le> 1000 \<Longrightarrow>
   unat (new_quantity q d) = nat (int (unat q) + d)"
  by (rule new_quantity_clamp)

theorem new_quantity_clamps_witness:
  "unat (1500 :: u64) < 2 ^ 62 \<and> unat (new_quantity 1500 (-2000)) = 0 \<and> unat (new_quantity 1500 1000) = 2500"
  using new_quantity_clamps [of 1500 "-2000"] new_quantity_clamps [of 1500 1000] by simp

text \<open>
  The \<open>i64\<close> addition of the update branch wraps: an order of quantity
  \<open>2^63 - 1\<close> raised by one gets quantity zero, which the generator reports as a cancel.
\<close>
theorem new_quantity_wraps: "new_quantity (2 ^ 63 - 1) 1 = 0"
  by (simp add: new_quantity_def)

text \<open>
  The decimal rendering used for generated order ids reads back to the
  number it renders, so distinct numbers give distinct ids.
\<close>
theorem string_of_nat_roundtrip: "digits_value (string_of_nat n) = n"
  by (rule digits_value_string_of_nat)

text \<open>
  \<^verbatim>\<open>initialize_with_sample_data\<close> on a fresh book, whatever the random
  quantities and ages, gives a well-formed book with 60 resting orders, sequence number 60,
  best bid 99.95 and best ask 100.00.
\<close>
theorem initialize_fresh_book:
  "book_inv (initialize_with_sample_data now rng (new_order_book sy))
   \<and> length (orders (initialize_with_sample_data now rng (new_order_book sy))) = 60
   \<and> sequence (initialize_with_sample_data now rng (new_order_book sy)) = 60
   \<and> get_best_bid_ask (initialize_with_sample_data now rng (new_order_book sy)) = (Some 99.95, Some 100)"
  using initialize_fresh_orders [of now rng sy] initialize_fresh_best [of now rng sy]
  by (simp add: sample_orders_def)

end
