(* ===== verification/SseMessages.thy ===== *)
theory SseMessages
  imports Projection
begin

text \<open>
  The message vocabulary of the SSE server (\<^verbatim>\<open>src/backend-sse/src/message.rs\<close>):
  the data types a client may request, the subscription record, the messages pushed to a
  client, and the parsing of the \<^verbatim>\<open>/stream\<close> query into stream definitions
  (\<^verbatim>\<open>StreamQuery::parse_streams\<close>). Strings are byte strings; the query is taken to be
  ASCII, on which Rust's \<^verbatim>\<open>trim\<close> and \<^verbatim>\<open>to_uppercase\<close> act as written below.
  JSON serialisation (serde) is not modelled: a message is the value it serialises.
  Client ids (\<^verbatim>\<open>Uuid\<close>) are opaque natural numbers; \<^verbatim>\<open>Uuid::to_string\<close> is
  injective, so a \<^verbatim>\<open>ConnectionInfo\<close> carries the id itself.
\<close>

type_synonym uuid = nat

datatype data_type = MBO | MBP

text \<open>\<open>{:?}\<close> of a \<^verbatim>\<open>DataType\<close>, as used in derived stream ids.\<close>

definition data_type_name :: "data_type \<Rightarrow> string" where
  "data_type_name dt = (case dt of MBO \<Rightarrow> ''MBO'' | MBP \<Rightarrow> ''MBP'')"

datatype market_data_update =
  MBOData "mbo_level list" "mbo_level list"
| MBPData "mbp_level list" "mbp_level list"

datatype sse_message =
  MarketData string string market_data_update u64 millis
| HeartBeat millis
| ConnectionInfo uuid millis "string list"
| Error u32 string "string option"

record sse_subscription =
  stream_id :: string
  sub_symbol :: string
  data_type :: data_type
  max_levels :: u32
  client_id :: uuid

text \<open>\<^verbatim>\<open>SSESubscription::new\<close>: the depth defaults to 20.\<close>

definition new_sse_subscription ::
  "string \<Rightarrow> string \<Rightarrow> data_type \<Rightarrow> u32 option \<Rightarrow> uuid \<Rightarrow> sse_subscription" where
  "new_sse_subscription sid sy dt ml c =
     \<lparr>stream_id = sid, sub_symbol = sy, data_type = dt,
      max_levels = (case ml of Some l \<Rightarrow> l | None \<Rightarrow> 20), client_id = c\<rparr>"

text \<open>The event name of \<^verbatim>\<open>SSEMessage::to_sse_event\<close>.\<close>

definition sse_event_name :: "sse_message \<Rightarrow> string" where
  "sse_event_name msg =
     (case msg of MarketData _ _ _ _ _ \<Rightarrow> ''market_data'' | HeartBeat _ \<Rightarrow> ''heartbeat''
      | ConnectionInfo _ _ _ \<Rightarrow> ''connection_info'' | Error _ _ _ \<Rightarrow> ''error'')"

text \<open>The snapshot a subscription asks for, shared by the initial snapshot and the ticks.\<close>

definition market_snapshot :: "millis \<Rightarrow> data_type \<Rightarrow> u32 \<Rightarrow> order_book \<Rightarrow> market_data_update" where
  "market_snapshot now dt ml ob =
     (case dt of
        MBO \<Rightarrow> MBOData (fst (get_mbo_data now ob ml)) (snd (get_mbo_data now ob ml))
      | MBP \<Rightarrow> MBPData (fst (get_mbp_data now ob ml)) (snd (get_mbp_data now ob ml)))"

subsection \<open>String primitives of the query parser\<close>

text \<open>\<^verbatim>\<open>str::split(c)\<close>: every separator splits, empty pieces are kept, and the
  result is never empty.\<close>

fun split_on :: "char \<Rightarrow> string \<Rightarrow> string list" where
  "split_on c [] = [[]]"
| "split_on c (x # xs) = (if x = c then [] # split_on c xs
                          else (let r = split_on c xs in (x # hd r) # tl r))"

text \<open>ASCII white space as \<^verbatim>\<open>char::is_whitespace\<close> classifies it.\<close>

definition is_ws :: "char \<Rightarrow> bool" where
  "is_ws c = (let n = of_char c :: nat in (9 \<le> n \<and> n \<le> 13) \<or> n = 32)"

definition trim :: "string \<Rightarrow> string" where
  "trim s = rev (dropWhile is_ws (rev (dropWhile is_ws s)))"

definition ascii_upper :: "char \<Rightarrow> char" where
  "ascii_upper c = (let n = of_char c :: nat in if 97 \<le> n \<and> n \<le> 122 then char_of (n - 32) else c)"

definition is_digit :: "char \<Rightarrow> bool" where
  "is_digit c = (let n = of_char c :: nat in 48 \<le> n \<and> n \<le> 57)"

text \<open>\<open>str::parse::<u32>()\<close>: an optional \<open>+\<close>, then one or more decimal digits whose
  value fits in 32 bits.\<close>

definition parse_u32 :: "string \<Rightarrow> u32 option" where
  "parse_u32 s =
     (let ds = (if s \<noteq> [] \<and> hd s = CHR ''+'' then tl s else s)
      in if ds \<noteq> [] \<and> list_all is_digit ds \<and> digits_value ds < 2 ^ 32
         then Some (of_nat (digits_value ds)) else None)"

subsection \<open>The stream query\<close>

record stream_query =
  q_streams :: "string option"
  q_symbols :: "string option"
  q_data_type :: "string option"
  q_max_levels :: "u32 option"

text \<open>\<^verbatim>\<open>StreamQuery::get_default_data_type\<close>: exactly \<open>"MBO"\<close>, case-sensitive.\<close>

definition get_default_data_type :: "stream_query \<Rightarrow> data_type" where
  "get_default_data_type q = (if q_data_type q = Some ''MBO'' then MBO else MBP)"

definition default_levels :: "stream_query \<Rightarrow> u32" where
  "default_levels q = (case q_max_levels q of Some l \<Rightarrow> l | None \<Rightarrow> 20)"

text \<open>One comma-separated piece of \<open>streams\<close>: \<open>symbol[:type[:levels]]\<close>.\<close>

definition parse_stream_def :: "stream_query \<Rightarrow> string \<Rightarrow> (string \<times> data_type \<times> u32) list" where
  "parse_stream_def q sd =
     (let parts = split_on CHR '':'' (trim sd)
      in if 1 \<le> length parts then
           [(parts ! 0,
             (if 2 \<le> length parts then (if map ascii_upper (parts ! 1) = ''MBO'' then MBO else MBP)
              else get_default_data_type q),
             (if 3 \<le> length parts then (case parse_u32 (parts ! 2) of Some l \<Rightarrow> l | None \<Rightarrow> default_levels q)
              else default_levels q))]
         else [])"

definition parse_streams :: "stream_query \<Rightarrow> (string \<times> data_type \<times> u32) list" where
  "parse_streams q =
     (case q_streams q of
        Some st \<Rightarrow> concat (map (parse_stream_def q) (split_on CHR '','' st))
      | None \<Rightarrow>
          (case q_symbols q of
             Some ss \<Rightarrow> map (\<lambda>sy. (trim sy, get_default_data_type q, default_levels q)) (split_on CHR '','' ss)
           | None \<Rightarrow> []))"

subsection \<open>SSE framing\<close>

text \<open>
  \<^verbatim>\<open>SSEMessage::to_sse_data\<close> and \<^verbatim>\<open>to_sse_event\<close>: the JSON text of the
  message (serde's result, \<open>None\<close> for a serialisation error) framed as a server-sent
  event, terminated by a blank line.
\<close>

definition nl :: string where
  "nl = [CHR 0x0A]"

definition to_sse_data :: "sse_message \<Rightarrow> string option \<Rightarrow> string" where
  \<open>to_sse_data msg js =
     (case js of
        Some json \<Rightarrow> ''data: '' @ json @ nl @ nl
      | None \<Rightarrow> ''data: {"event":"error","message":"Serialization failed"}'' @ nl @ nl)\<close>

definition to_sse_event :: "sse_message \<Rightarrow> string option \<Rightarrow> string" where
  \<open>to_sse_event msg js =
     (case js of
        Some json \<Rightarrow> ''event: '' @ sse_event_name msg @ nl @ ''data: '' @ json @ nl @ nl
      | None \<Rightarrow> ''event: error'' @ nl @ ''data: {"message":"Serialization failed"}'' @ nl @ nl)\<close>

text \<open>
  The reading side, as the server-sent events format defines it for one event: the lines
  up to the first blank line; a line is split at its first colon into field name and value,
  one leading space of the value dropped; the last \<open>event\<close> field names the event
  (\<open>message\<close> when there is none) and the \<open>data\<close> fields, joined by newlines, are its
  data. A text without a blank line has not finished an event.
\<close>

definition sse_field :: "string \<Rightarrow> string \<times> string" where
  "sse_field l =
     (let name = takeWhile (\<lambda>c. c \<noteq> CHR '':'') l; v = drop (Suc (length name)) l
      in (name, if v \<noteq> [] \<and> hd v = CHR '' '' then tl v else v))"

definition parse_sse_event :: "string \<Rightarrow> (string \<times> string) option" where
  "parse_sse_event s =
     (let ls = split_on CHR 0x0A s; fs = map sse_field (takeWhile (\<lambda>l. l \<noteq> []) ls);
          evs = [v. (n, v) \<leftarrow> fs, n = ''event'']; ds = [v. (n, v) \<leftarrow> fs, n = ''data'']
      in if [] \<in> set ls
         then Some (if evs = [] then ''message'' else last evs, concat (map (\<lambda>d. d @ nl) (butlast ds)) @ (if ds = [] then [] else last ds))
         else None)"

subsection \<open>Lemmas\<close>

lemma split_on_not_Nil [simp]: "split_on c s \<noteq> []"
  by (induction s) (auto simp: Let_def)

lemma concat_split_on: "concat (map (\<lambda>w. w @ [c]) (butlast (split_on c s))) @ last (split_on c s) = s"
proof (induction s)
  case (Cons x xs)
  show ?case
  proof (cases "x = c")
    case False
    then show ?thesis
      using Cons split_on_not_Nil [of c xs]
      by (cases "split_on c xs") (auto simp: Let_def split: if_splits)
  qed (use Cons in simp)
qed simp

lemma is_digit_digit_char: "d < 10 \<Longrightarrow> is_digit (digit_char d)"
  by (simp add: is_digit_def digit_char_def)

lemma string_of_nat_digits: "list_all is_digit (string_of_nat n)"
proof (induction n rule: string_of_nat.induct)
  case (1 n)
  then show ?case
    by (subst string_of_nat.simps) (simp add: is_digit_digit_char)
qed

lemma hd_string_of_nat_not_plus: "hd (string_of_nat n) \<noteq> CHR ''+''"
  using string_of_nat_digits [of n] string_of_nat_not_Nil [of n]
  by (cases "string_of_nat n") (auto simp: is_digit_def)

lemma parse_u32_string_of_nat: "parse_u32 (string_of_nat (unat w)) = Some w"
proof -
  have "digits_value (string_of_nat (unat w)) < 2 ^ 32"
    using unsigned_less [of w] by (simp add: digits_value_string_of_nat)
  then show ?thesis
    by (simp add: parse_u32_def hd_string_of_nat_not_plus string_of_nat_digits
                  digits_value_string_of_nat)
qed

lemma parse_stream_def_single: "length (parse_stream_def q sd) = 1"
  by (simp add: parse_stream_def_def Let_def Suc_le_eq)


subsection \<open>Properties of the query parser\<close>

text \<open>
  \<^verbatim>\<open>parse_streams\<close> on boundary inputs: pieces are trimmed and the type is
  matched case-insensitively; a trailing comma yields a stream for the empty symbol (the
  guard \<open>parts.len() >= 1\<close> always holds, since \<open>split\<close> never returns nothing), which
  \<^verbatim>\<open>subscribe_to_streams\<close> then creates a book for; the default \<open>data_type\<close>
  parameter is matched case-sensitively, so \<open>mbo\<close> there means MBP; an unparsable depth
  falls back to the default.
\<close>

theorem parse_streams_examples:
  "parse_streams \<lparr>q_streams = Some ''BTCUSD:MBP:20, ETHUSD:mbo:10'', q_symbols = None, q_data_type = None, q_max_levels = None\<rparr>
     = [(''BTCUSD'', MBP, 20), (''ETHUSD'', MBO, 10)]
   \<and> parse_streams \<lparr>q_streams = Some ''BTCUSD,'', q_symbols = None, q_data_type = None, q_max_levels = Some 15\<rparr>
     = [(''BTCUSD'', MBP, 15), ('''', MBP, 15)]
   \<and> parse_streams \<lparr>q_streams = None, q_symbols = Some ''ETHUSD'', q_data_type = Some ''mbo'', q_max_levels = None\<rparr>
     = [(''ETHUSD'', MBP, 20)]
   \<and> parse_streams \<lparr>q_streams = Some ''ETHUSD:MBO:+7x'', q_symbols = None, q_data_type = None, q_max_levels = None\<rparr>
     = [(''ETHUSD'', MBO, 20)]"
  by (simp add: parse_streams_def parse_stream_def_def trim_def is_ws_def ascii_upper_def parse_u32_def
                is_digit_def digits_value_def get_default_data_type_def default_levels_def Let_def)
     (simp add: char_of_def bit_0)


subsection \<open>SSE framing\<close>

lemma split_on_sep: "c \<notin> set a \<Longrightarrow> split_on c (a @ c # b) = a # split_on c b"
  by (induction a) (auto simp: Let_def)

lemma split_on_none: "c \<notin> set a \<Longrightarrow> split_on c a = [a]"
  by (induction a) (auto simp: Let_def)

lemma nl_not_in_event_name: "CHR 0x0A \<notin> set (sse_event_name msg)"
  by (cases msg) (simp_all add: sse_event_name_def)

text \<open>
  C21 (roundtrip of the SSE framing): a frame built by \<^verbatim>\<open>to_sse_event\<close> or
  \<^verbatim>\<open>to_sse_data\<close> from a JSON text without a raw newline (serde escapes them) reads back
  as one event carrying the message's event name (\<open>message\<close> for \<^verbatim>\<open>to_sse_data\<close>)
  and exactly that text; the serialisation-error frame reads back as an \<open>error\<close> event.
\<close>

theorem sse_event_roundtrip:
  assumes "CHR 0x0A \<notin> set json"
  shows \<open>parse_sse_event (to_sse_event msg (Some json)) = Some (sse_event_name msg, json)
         \<and> parse_sse_event (to_sse_data msg (Some json)) = Some (''message'', json)
         \<and> parse_sse_event (to_sse_event msg None) = Some (''error'', ''{"message":"Serialization failed"}'')\<close>
proof -
  have e: "split_on CHR 0x0A (to_sse_event msg (Some json)) = [''event: '' @ sse_event_name msg, ''data: '' @ json, [], []]"
    using assms nl_not_in_event_name [of msg]
    by (simp add: to_sse_event_def nl_def split_on_sep split_on_none)
  have d: "split_on CHR 0x0A (to_sse_data msg (Some json)) = [''data: '' @ json, [], []]"
    using assms by (simp add: to_sse_data_def nl_def split_on_sep split_on_none)
  have \<open>parse_sse_event (to_sse_event msg None) = Some (''error'', ''{"message":"Serialization failed"}'')\<close>
    by (simp add: parse_sse_event_def to_sse_event_def nl_def split_on_sep split_on_none sse_field_def)
  then show ?thesis
    by (simp add: parse_sse_event_def e d sse_field_def)
qed

theorem sse_event_roundtrip_witness:
  \<open>parse_sse_event (to_sse_event (HeartBeat 5) (Some ''{"type":"HeartBeat"}'')) = Some (''heartbeat'', ''{"type":"HeartBeat"}'')\<close>
  using sse_event_roundtrip [of \<open>''{"type":"HeartBeat"}''\<close> "HeartBeat 5"]
  by (simp add: sse_event_name_def)

end
