(* ===== verification/Channels.thy ===== *)
theory Channels
  imports Prelude
begin

text \<open>
  The delivery channel abstraction: every client owns one \<^verbatim>\<open>mpsc::unbounded_channel\<close>
  whose sending half the registries store (\<^verbatim>\<open>SSEClientSender\<close> in
  \<^verbatim>\<open>src/backend-sse/src/stream_manager.rs\<close>, \<^verbatim>\<open>ClientSender\<close> in
  \<^verbatim>\<open>src/backend/src/stream_manager.rs\<close>). The channels form an explicit store from
  channel names to channel states, so that a claim about who writes to which channel can be
  stated. A channel is open while its receiver is alive; \<open>send\<close> on an open channel
  appends to its queue and returns \<open>Ok\<close>, on a closed one it returns \<open>Err\<close> and changes
  nothing (tokio's \<^verbatim>\<open>UnboundedSender::send\<close>). The store is polymorphic in the
  message type, so the SSE and the WebSocket registries share it.
\<close>

type_synonym chan_id = nat

record 'm chan =
  ch_open :: bool
  ch_queue :: "'m list"

type_synonym 'm chans = "chan_id \<Rightarrow> 'm chan"

text \<open>\<^verbatim>\<open>UnboundedSender::send\<close>: \<open>True\<close> is \<open>Ok(())\<close>, \<open>False\<close> is \<open>Err(SendError)\<close>.\<close>

definition send_msg :: "chan_id \<Rightarrow> 'm \<Rightarrow> 'm chans \<Rightarrow> bool \<times> 'm chans" where
  "send_msg tx msg cs =
     (if ch_open (cs tx) then (True, cs(tx := (cs tx)\<lparr>ch_queue := ch_queue (cs tx) @ [msg]\<rparr>))
      else (False, cs))"

text \<open>Dropping the receiver (the protocol task ends): later sends fail.\<close>

definition close_chan :: "chan_id \<Rightarrow> 'm chans \<Rightarrow> 'm chans" where
  "close_chan tx cs = cs(tx := (cs tx)\<lparr>ch_open := False\<rparr>)"

text \<open>A fresh channel, as \<^verbatim>\<open>mpsc::unbounded_channel()\<close> creates it.\<close>

definition open_chan :: "chan_id \<Rightarrow> 'm chans \<Rightarrow> 'm chans" where
  "open_chan tx cs = cs(tx := \<lparr>ch_open = True, ch_queue = []\<rparr>)"

text \<open>\<^verbatim>\<open>UnboundedReceiver::recv\<close> on a channel with a queued message: the oldest
  one, taken off the queue. On an empty queue the receiver waits, or sees the end of the
  channel once no sender is left; both are decided by the caller.\<close>

definition recv_msg :: "chan_id \<Rightarrow> 'm chans \<Rightarrow> ('m \<times> 'm chans) option" where
  "recv_msg tx cs =
     (case ch_queue (cs tx) of
        [] \<Rightarrow> None
      | msg # rest \<Rightarrow> Some (msg, cs(tx := (cs tx)\<lparr>ch_queue := rest\<rparr>)))"

text \<open>Messages queued on a channel, oldest first; what the receiving task drains.\<close>

definition queued :: "'m chans \<Rightarrow> chan_id \<Rightarrow> 'm list" where
  "queued cs tx = ch_queue (cs tx)"

text \<open>A change of the store made only of sends to channels in \<open>S\<close>: no channel opens
  or closes, and a channel outside \<open>S\<close> is untouched.\<close>

definition sends_within :: "chan_id set \<Rightarrow> 'm chans \<Rightarrow> 'm chans \<Rightarrow> bool" where
  "sends_within S cs cs' \<longleftrightarrow> (\<forall>t. ch_open (cs' t) = ch_open (cs t)) \<and> (\<forall>t. t \<notin> S \<longrightarrow> cs' t = cs t)"

lemma send_msg_open [simp]:
  "ch_open (cs tx) \<Longrightarrow> send_msg tx msg cs = (True, cs(tx := (cs tx)\<lparr>ch_queue := ch_queue (cs tx) @ [msg]\<rparr>))"
  by (simp add: send_msg_def)

lemma send_msg_closed [simp]: "\<not> ch_open (cs tx) \<Longrightarrow> send_msg tx msg cs = (False, cs)"
  by (simp add: send_msg_def)

lemma send_msg_other: "tx' \<noteq> tx \<Longrightarrow> snd (send_msg tx msg cs) tx' = cs tx'"
  by (simp add: send_msg_def)

lemma send_msg_open_same: "ch_open (snd (send_msg tx msg cs) t) = ch_open (cs t)"
  by (simp add: send_msg_def)

lemma queued_send_msg:
  "queued (snd (send_msg tx msg cs)) t =
     queued cs t @ (if t = tx \<and> ch_open (cs tx) then [msg] else [])"
  by (simp add: send_msg_def queued_def)

text \<open>A channel never written to keeps its state through a fold of sends to other channels.\<close>

lemma fold_send_other:
  "t \<notin> set (map fst xs) \<Longrightarrow>
   fold (\<lambda>(tx, msg) cs. snd (send_msg tx msg cs)) xs cs t = cs t"
  by (induction xs arbitrary: cs) (auto simp: send_msg_other)

lemma sends_within_refl [simp]: "sends_within S cs cs"
  by (simp add: sends_within_def)

lemma sends_within_trans: "sends_within S cs1 cs2 \<Longrightarrow> sends_within S cs2 cs3 \<Longrightarrow> sends_within S cs1 cs3"
  by (simp add: sends_within_def)

lemma sends_within_send: "tx \<in> S \<Longrightarrow> sends_within S cs (snd (send_msg tx msg cs))"
  by (auto simp: sends_within_def send_msg_def)

lemma sends_within_fold:
  "(\<And>x cs. x \<in> set xs \<Longrightarrow> sends_within S cs (f x cs)) \<Longrightarrow> sends_within S cs (fold f xs cs)"
  by (induction xs arbitrary: cs) (auto intro: sends_within_trans)

end
