(* ===== verification/SseRegistry.thy ===== *)
theory SseRegistry
  imports Activity SseMessages Channels
begin

text \<open>
  The SSE stream manager's registry (\<^verbatim>\<open>SSEStreamManager\<close> in
  \<^verbatim>\<open>src/backend-sse/src/stream_manager.rs\<close>). Its four \<^verbatim>\<open>DashMap\<close>s are
  association lists with distinct keys, in iteration order: the order books by symbol,
  the subscriptions by symbol, the clients' senders (channel names of \<^verbatim>\<open>Channels\<close>)
  and the stream ids each client is tracked with. Each method is one function on the
  registry and, where it sends, on the channel store; each is taken to run without
  interleaving (the interleavings are in \<^verbatim>\<open>SseServer\<close>). Random draws for
  the lazily created books are an explicit argument \<open>rng\<close>, and \<^verbatim>\<open>Utc::now()\<close> is
  the argument \<open>now\<close>.
\<close>

record sse_manager =
  order_books :: "(string \<times> order_book) list"
  subscriptions :: "(string \<times> sse_subscription list) list"
  clients :: "(uuid \<times> chan_id) list"
  client_streams :: "(uuid \<times> string list) list"

definition new_sse_manager :: sse_manager where
  "new_sse_manager = \<lparr>order_books = [], subscriptions = [], clients = [], client_streams = []\<rparr>"

text \<open>\<^verbatim>\<open>initialize_symbol\<close>: a fresh book seeded with sample data, inserted (or
  replacing the old one) under its symbol.\<close>

definition initialize_symbol :: "millis \<Rightarrow> (nat \<Rightarrow> nat \<times> nat) \<Rightarrow> string \<Rightarrow> sse_manager \<Rightarrow> sse_manager" where
  "initialize_symbol now rng sy m =
     m\<lparr>order_books := AList.update sy (initialize_with_sample_data now rng (new_order_book sy)) (order_books m)\<rparr>"

text \<open>The state changes of \<^verbatim>\<open>start\<close>: the three default symbols (the two
  background loops it spawns are the ticks of \<^verbatim>\<open>SseServer\<close>).\<close>

definition default_symbols :: "string list" where
  "default_symbols = [''BTCUSD'', ''ETHUSD'', ''ADAUSD'']"

definition sse_start :: "millis \<Rightarrow> (string \<Rightarrow> nat \<Rightarrow> nat \<times> nat) \<Rightarrow> sse_manager \<Rightarrow> sse_manager" where
  "sse_start now rng m = fold (\<lambda>sy m. initialize_symbol now (rng sy) sy m) default_symbols m"

definition register_client :: "uuid \<Rightarrow> chan_id \<Rightarrow> sse_manager \<Rightarrow> sse_manager" where
  "register_client c tx m =
     m\<lparr>clients := AList.update c tx (clients m), client_streams := AList.update c [] (client_streams m)\<rparr>"

text \<open>The \<^verbatim>\<open>iter_mut\<close> loop of \<^verbatim>\<open>remove_subscription\<close>: retain the
  non-matching subscriptions of each entry, and stop after the first entry that changed.\<close>

fun remove_sub_entries ::
  "uuid \<Rightarrow> string \<Rightarrow> (string \<times> sse_subscription list) list \<Rightarrow> (string \<times> sse_subscription list) list" where
  "remove_sub_entries c sid [] = []"
| "remove_sub_entries c sid ((k, v) # rest) =
     (let v' = filter (\<lambda>s. \<not> (client_id s = c \<and> stream_id s = sid)) v
      in if length v' \<noteq> length v then (k, v') # rest else (k, v') # remove_sub_entries c sid rest)"

definition remove_subscription :: "uuid \<Rightarrow> string \<Rightarrow> sse_manager \<Rightarrow> sse_manager" where
  "remove_subscription c sid m =
     m\<lparr>subscriptions := filter (\<lambda>(k, v). v \<noteq> []) (remove_sub_entries c sid (subscriptions m))\<rparr>"

text \<open>\<^verbatim>\<open>unregister_client\<close>: take the client's tracked stream ids out of the
  tracking map, remove the subscription of each, then drop the sender.\<close>

definition unregister_client :: "uuid \<Rightarrow> sse_manager \<Rightarrow> sse_manager" where
  "unregister_client c m =
     (let tracked = map_of (client_streams m) c;
          m1 = m\<lparr>client_streams := AList.delete c (client_streams m)\<rparr>;
          m2 = (case tracked of None \<Rightarrow> m1 | Some streams \<Rightarrow> fold (remove_subscription c) streams m1)
      in m2\<lparr>clients := AList.delete c (clients m2)\<rparr>)"

text \<open>\<open>format!("{}_{:?}_{}", symbol, data_type, max_levels)\<close>.\<close>

definition stream_id_of :: "string \<Rightarrow> data_type \<Rightarrow> u32 \<Rightarrow> string" where
  "stream_id_of sy dt ml = sy @ ''_'' @ data_type_name dt @ ''_'' @ string_of_nat (unat ml)"

text \<open>
  One stream definition of \<^verbatim>\<open>subscribe_to_streams\<close>, up to the snapshot: create
  the book if the symbol is new, record the subscription under its symbol and its stream id
  under the client.
\<close>

definition add_stream ::
  "millis \<Rightarrow> (string \<Rightarrow> nat \<Rightarrow> nat \<times> nat) \<Rightarrow> uuid \<Rightarrow> string \<Rightarrow> data_type \<Rightarrow> u32
   \<Rightarrow> sse_manager \<Rightarrow> sse_manager" where
  "add_stream now rng c sy dt ml m =
     (let m1 = (if map_of (order_books m) sy = None then initialize_symbol now (rng sy) sy m else m);
          sid = stream_id_of sy dt ml;
          sub = new_sse_subscription sid sy dt (Some ml) c;
          m2 = m1\<lparr>subscriptions := push_entry sy sub (subscriptions m1)\<rparr>
      in m2\<lparr>client_streams := push_entry c sid (client_streams m2)\<rparr>)"

text \<open>
  The loop of \<^verbatim>\<open>subscribe_to_streams\<close>: after \<open>add_stream\<close>, push the initial
  snapshot if the book and the client are found. A failed send returns \<open>Err\<close> at once;
  the subscriptions recorded so far stay.
\<close>

fun subscribe_loop ::
  "millis \<Rightarrow> (string \<Rightarrow> nat \<Rightarrow> nat \<times> nat) \<Rightarrow> uuid \<Rightarrow> (string \<times> data_type \<times> u32) list
   \<Rightarrow> sse_manager \<Rightarrow> sse_message chans \<Rightarrow> (string + unit) \<times> sse_manager \<times> sse_message chans" where
  "subscribe_loop now rng c [] m cs = (Inr (), m, cs)"
| "subscribe_loop now rng c ((sy, dt, ml) # defs) m cs =
     (let m3 = add_stream now rng c sy dt ml m;
          sid = stream_id_of sy dt ml
      in case map_of (order_books m3) sy of
           None \<Rightarrow> subscribe_loop now rng c defs m3 cs
         | Some ob \<Rightarrow>
             (case map_of (clients m3) c of
                None \<Rightarrow> subscribe_loop now rng c defs m3 cs
              | Some tx \<Rightarrow>
                  (case send_msg tx (MarketData sid sy (market_snapshot now dt ml ob) (sequence ob) now) cs of
                     (False, cs') \<Rightarrow> (Inl ''Failed to send initial snapshot'', m3, cs')
                   | (True, cs') \<Rightarrow> subscribe_loop now rng c defs m3 cs')))"

definition subscribe_to_streams ::
  "millis \<Rightarrow> (string \<Rightarrow> nat \<Rightarrow> nat \<times> nat) \<Rightarrow> uuid \<Rightarrow> (string \<times> data_type \<times> u32) list
   \<Rightarrow> sse_manager \<Rightarrow> sse_message chans \<Rightarrow> (string + unit) \<times> sse_manager \<times> sse_message chans" where
  "subscribe_to_streams now rng c defs m cs = subscribe_loop now rng c defs m cs"

definition get_symbols :: "sse_manager \<Rightarrow> string list" where
  "get_symbols m = map fst (order_books m)"

definition send_connection_info :: "millis \<Rightarrow> uuid \<Rightarrow> sse_manager \<Rightarrow> sse_message chans \<Rightarrow> sse_message chans" where
  "send_connection_info now c m cs =
     (case map_of (clients m) c of
        None \<Rightarrow> cs
      | Some tx \<Rightarrow> snd (send_msg tx (ConnectionInfo c now (get_symbols m)) cs))"

subsection \<open>The registry invariant\<close>

text \<open>Every subscription recorded, in the order the maps are iterated.\<close>

definition all_subs :: "(string \<times> sse_subscription list) list \<Rightarrow> sse_subscription list" where
  "all_subs L = concat (map snd L)"

text \<open>Each subscription sits under its own symbol with the id derived from its fields.\<close>

definition subs_keyed :: "(string \<times> sse_subscription list) list \<Rightarrow> bool" where
  "subs_keyed L \<longleftrightarrow> (\<forall>(k, v) \<in> set L. \<forall>s \<in> set v.
       sub_symbol s = k \<and> stream_id s = stream_id_of k (data_type s) (max_levels s))"

definition subs_ok :: "string set \<Rightarrow> (string \<times> sse_subscription list) list \<Rightarrow> bool" where
  "subs_ok ks L \<longleftrightarrow>
     distinct (map fst L) \<and> subs_keyed L \<and> (\<forall>(k, v) \<in> set L. v \<noteq> [] \<and> k \<in> ks)"

text \<open>Every subscription's stream id is tracked under its client, so that
  \<^verbatim>\<open>unregister_client\<close> finds it.\<close>

definition subs_tracked :: "(uuid \<times> string list) list \<Rightarrow> (string \<times> sse_subscription list) list \<Rightarrow> bool" where
  "subs_tracked cst L \<longleftrightarrow>
     (\<forall>s \<in> set (all_subs L). \<exists>ss. map_of cst (client_id s) = Some ss \<and> stream_id s \<in> set ss)"

definition sse_inv :: "sse_manager \<Rightarrow> bool" where
  "sse_inv m \<longleftrightarrow>
     distinct (map fst (order_books m)) \<and> distinct (map fst (clients m))
     \<and> distinct (map fst (client_streams m))
     \<and> (\<forall>(k, ob) \<in> set (order_books m). book_inv ob)
     \<and> subs_ok (fst ` set (order_books m)) (subscriptions m)
     \<and> subs_tracked (client_streams m) (subscriptions m)"

text \<open>Two example states: a registry with one book, \<open>XYZ\<close>, and one registered
  client, 1, whose sender is channel 0; and a channel store in which only channel 0 is open.\<close>

definition sse_example :: sse_manager where
  "sse_example = \<lparr>order_books = [(''XYZ'', spread_example)], subscriptions = [],
                   clients = [(1, 0)], client_streams = [(1, [])]\<rparr>"

definition chans_example :: "sse_message chans" where
  "chans_example = open_chan 0 (\<lambda>_. \<lparr>ch_open = False, ch_queue = []\<rparr>)"

definition sub_match :: "uuid \<Rightarrow> string \<Rightarrow> sse_subscription \<Rightarrow> bool" where
  "sub_match c sid s \<longleftrightarrow> client_id s = c \<and> stream_id s = sid"


subsection \<open>Derived stream ids are injective\<close>

lemma sep_split_unique:
  "c \<notin> set xs \<Longrightarrow> c \<notin> set xs' \<Longrightarrow> xs @ c # ys = xs' @ c # ys' \<Longrightarrow> xs = xs' \<and> ys = ys'"
proof (induction xs arbitrary: xs')
  case Nil
  then show ?case by (cases xs') auto
next
  case (Cons x xs)
  then show ?case by (cases xs') auto
qed

lemma underscore_not_digit: "CHR ''_'' \<notin> set (string_of_nat n)"
proof
  assume "CHR ''_'' \<in> set (string_of_nat n)"
  then have "is_digit CHR ''_''"
    using string_of_nat_digits [of n] by (simp add: list_all_iff)
  then show False by (simp add: is_digit_def)
qed

lemma underscore_not_name: "CHR ''_'' \<notin> set (data_type_name dt)"
  by (cases dt) (simp_all add: data_type_name_def)

lemma data_type_name_inj: "data_type_name d = data_type_name d' \<longleftrightarrow> d = d'"
  by (cases d; cases d') (simp_all add: data_type_name_def)

lemma rev_stream_id_of:
  "rev (stream_id_of sy dt ml) =
     rev (string_of_nat (unat ml)) @ CHR ''_'' # rev (data_type_name dt) @ CHR ''_'' # rev sy"
  by (simp add: stream_id_of_def)

lemma stream_id_of_inj:
  "stream_id_of sy dt ml = stream_id_of sy' dt' ml' \<longleftrightarrow> sy = sy' \<and> dt = dt' \<and> ml = ml'"
proof
  assume eq: "stream_id_of sy dt ml = stream_id_of sy' dt' ml'"
  have "rev (string_of_nat (unat ml)) @ CHR ''_'' # (rev (data_type_name dt) @ CHR ''_'' # rev sy)
      = rev (string_of_nat (unat ml')) @ CHR ''_'' # (rev (data_type_name dt') @ CHR ''_'' # rev sy')"
    using arg_cong [OF eq, of rev] by (simp only: rev_stream_id_of append_Cons append.assoc)
  then have n: "rev (string_of_nat (unat ml)) = rev (string_of_nat (unat ml'))"
    and r: "rev (data_type_name dt) @ CHR ''_'' # rev sy = rev (data_type_name dt') @ CHR ''_'' # rev sy'"
    using sep_split_unique underscore_not_digit by (metis set_rev)+
  from r have "rev (data_type_name dt) = rev (data_type_name dt') \<and> rev sy = rev sy'"
    using sep_split_unique underscore_not_name by (metis set_rev)
  with n show "sy = sy' \<and> dt = dt' \<and> ml = ml'"
    by (simp add: data_type_name_inj string_of_nat_inj word_unat_eq_iff)
qed simp

subsection \<open>Removing one stream of one client\<close>

lemma map_fst_remove_sub_entries [simp]: "map fst (remove_sub_entries c sid L) = map fst L"
  by (induction c sid L rule: remove_sub_entries.induct) (auto simp: Let_def)

lemma remove_sub_entries_shrinks:
  "(k, v') \<in> set (remove_sub_entries c sid L) \<Longrightarrow> \<exists>v. (k, v) \<in> set L \<and> set v' \<subseteq> set v"
  by (induction c sid L rule: remove_sub_entries.induct) (auto simp: Let_def split: if_splits)

lemma subs_keyed_shrink:
  "subs_keyed L \<Longrightarrow> (\<And>k v'. (k, v') \<in> set L' \<Longrightarrow> \<exists>v. (k, v) \<in> set L \<and> set v' \<subseteq> set v) \<Longrightarrow> subs_keyed L'"
  unfolding subs_keyed_def by fastforce

lemma subs_keyed_same_key:
  assumes "subs_keyed L" "(k, v) \<in> set L" "(k', v') \<in> set L" "s \<in> set v" "s' \<in> set v'"
    "stream_id s = stream_id s'"
  shows "k = k'"
proof -
  have "stream_id s = stream_id_of k (data_type s) (max_levels s)"
    "stream_id s' = stream_id_of k' (data_type s') (max_levels s')"
    using assms(1-5) unfolding subs_keyed_def by fast+
  with assms(6) show ?thesis
    by (simp add: stream_id_of_inj)
qed

lemma all_subs_Cons [simp]: "all_subs ((k, v) # L) = v @ all_subs L"
  by (simp add: all_subs_def)

lemma all_subs_Nil [simp]: "all_subs [] = []"
  by (simp add: all_subs_def)

lemma all_subs_prune: "all_subs (filter (\<lambda>(k, v). v \<noteq> []) L) = all_subs L"
  by (induction L) auto

lemma no_match_filter: "\<forall>s \<in> set xs. \<not> P s \<Longrightarrow> filter (\<lambda>s. \<not> P s) xs = xs"
  by (simp add: filter_id_conv)

lemma all_subs_remove_sub_entries:
  "distinct (map fst L) \<Longrightarrow> subs_keyed L \<Longrightarrow>
   all_subs (remove_sub_entries c sid L) = filter (\<lambda>s. \<not> sub_match c sid s) (all_subs L)"
proof (induction c sid L rule: remove_sub_entries.induct)
  case (2 c sid k v rest)
  have keyed_rest: "subs_keyed rest"
    using "2.prems"(2) by (auto simp: subs_keyed_def)
  show ?case
  proof (cases "\<exists>s \<in> set v. sub_match c sid s")
    case True
    then obtain s where s: "s \<in> set v" "sub_match c sid s" by blast
    have "\<forall>s' \<in> set (all_subs rest). \<not> sub_match c sid s'"
    proof
      fix s' assume "s' \<in> set (all_subs rest)"
      then obtain k' v' where kv: "(k', v') \<in> set rest" "s' \<in> set v'"
        by (auto simp: all_subs_def)
      show "\<not> sub_match c sid s'"
      proof
        assume "sub_match c sid s'"
        with s kv "2.prems"(2) have "k = k'"
          by (intro subs_keyed_same_key [of "(k, v) # rest" k v k' v' s s']) (auto simp: sub_match_def)
        with kv "2.prems"(1) show False by force
      qed
    qed
    moreover have "length (filter (\<lambda>s. \<not> sub_match c sid s) v) \<noteq> length v"
      using s by (metis filter_True length_filter_less less_irrefl)
    ultimately show ?thesis
      by (simp add: Let_def sub_match_def [symmetric] no_match_filter)
  next
    case False
    then have "filter (\<lambda>s. \<not> sub_match c sid s) v = v"
      by (simp add: no_match_filter)
    with False "2.IH" "2.prems" keyed_rest show ?thesis
      by (simp add: Let_def sub_match_def [symmetric])
  qed
qed simp


lemma remove_subscription_fields [simp]:
  "order_books (remove_subscription c sid m) = order_books m"
  "clients (remove_subscription c sid m) = clients m"
  "client_streams (remove_subscription c sid m) = client_streams m"
  by (simp_all add: remove_subscription_def)

lemma fold_remove_subscription_fields [simp]:
  "order_books (fold (remove_subscription c) sids m) = order_books m"
  "clients (fold (remove_subscription c) sids m) = clients m"
  "client_streams (fold (remove_subscription c) sids m) = client_streams m"
  by (induction sids arbitrary: m) simp_all

lemma subs_ok_remove:
  "subs_ok ks L \<Longrightarrow> subs_ok ks (filter (\<lambda>(k, v). v \<noteq> []) (remove_sub_entries c sid L))"
proof -
  assume ok: "subs_ok ks L"
  let ?L' = "remove_sub_entries c sid L"
  have "distinct (map fst ?L')"
    using ok by (simp add: subs_ok_def)
  moreover have "subs_keyed ?L'"
    using ok remove_sub_entries_shrinks by (auto simp: subs_ok_def intro: subs_keyed_shrink)
  moreover have "k \<in> ks" if "(k, v) \<in> set ?L'" for k v
  proof -
    have "k \<in> fst ` set ?L'" using that by force
    then have "k \<in> fst ` set L" by (metis list.set_map map_fst_remove_sub_entries)
    with ok show ?thesis by (auto simp: subs_ok_def)
  qed
  ultimately show ?thesis
    by (auto simp: subs_ok_def distinct_map_filter subs_keyed_def)
qed

lemma all_subs_remove_subscription:
  "subs_ok ks (subscriptions m) \<Longrightarrow>
   all_subs (subscriptions (remove_subscription c sid m))
     = filter (\<lambda>s. \<not> sub_match c sid s) (all_subs (subscriptions m))"
  by (simp add: remove_subscription_def all_subs_prune all_subs_remove_sub_entries subs_ok_def)

lemma fold_remove_subscription:
  "subs_ok ks (subscriptions m) \<Longrightarrow>
   subs_ok ks (subscriptions (fold (remove_subscription c) sids m))
   \<and> all_subs (subscriptions (fold (remove_subscription c) sids m))
       = filter (\<lambda>s. \<not> (client_id s = c \<and> stream_id s \<in> set sids)) (all_subs (subscriptions m))
   \<and> order_books (fold (remove_subscription c) sids m) = order_books m
   \<and> clients (fold (remove_subscription c) sids m) = clients m
   \<and> client_streams (fold (remove_subscription c) sids m) = client_streams m"
proof (induction sids arbitrary: m)
  case (Cons sid sids)
  let ?m1 = "remove_subscription c sid m"
  have ok1: "subs_ok ks (subscriptions ?m1)"
    using Cons.prems by (simp add: remove_subscription_def subs_ok_remove)
  have "all_subs (subscriptions ?m1) = filter (\<lambda>s. \<not> sub_match c sid s) (all_subs (subscriptions m))"
    using Cons.prems by (rule all_subs_remove_subscription)
  with Cons.IH [OF ok1] show ?case
    by (simp add: sub_match_def) (auto intro: filter_cong)
qed simp


lemma subs_tracked_client:
  "subs_tracked cst L \<Longrightarrow> s \<in> set (all_subs L) \<Longrightarrow> map_of cst (client_id s) = Some ss \<Longrightarrow>
   stream_id s \<in> set ss"
  by (auto simp: subs_tracked_def)

lemma unregister_client_subs:
  assumes inv: "sse_inv m"
  shows "all_subs (subscriptions (unregister_client c m)) = filter (\<lambda>s. client_id s \<noteq> c) (all_subs (subscriptions m))
         \<and> subs_ok (fst ` set (order_books m)) (subscriptions (unregister_client c m))
         \<and> order_books (unregister_client c m) = order_books m
         \<and> clients (unregister_client c m) = AList.delete c (clients m)
         \<and> client_streams (unregister_client c m) = AList.delete c (client_streams m)"
proof (cases "map_of (client_streams m) c")
  case None
  then have "filter (\<lambda>s. client_id s \<noteq> c) (all_subs (subscriptions m)) = all_subs (subscriptions m)"
    using inv by (auto simp: sse_inv_def subs_tracked_def filter_id_conv)
  with None inv show ?thesis
    by (simp add: unregister_client_def sse_inv_def)
next
  case (Some streams)
  let ?m1 = "m\<lparr>client_streams := AList.delete c (client_streams m)\<rparr>"
  have ok: "subs_ok (fst ` set (order_books m)) (subscriptions ?m1)"
    using inv by (simp add: sse_inv_def)
  have tr: "subs_tracked (client_streams m) (subscriptions m)"
    using inv by (simp add: sse_inv_def)
  have "stream_id s \<in> set streams" if "s \<in> set (all_subs (subscriptions m))" "client_id s = c" for s
    using subs_tracked_client [OF tr that(1)] that(2) Some by simp
  then have "filter (\<lambda>s. \<not> (client_id s = c \<and> stream_id s \<in> set streams)) (all_subs (subscriptions m))
        = filter (\<lambda>s. client_id s \<noteq> c) (all_subs (subscriptions m))"
    by (auto intro: filter_cong)
  with fold_remove_subscription [OF ok, of c streams] Some show ?thesis
    by (simp add: unregister_client_def)
qed

lemma distinct_delete_keys: "distinct (map fst al) \<Longrightarrow> distinct (map fst (AList.delete k al))"
  by (simp add: delete_filter distinct_map_filter)

lemma unregister_client_inv: "sse_inv m \<Longrightarrow> sse_inv (unregister_client c m)"
proof -
  assume inv: "sse_inv m"
  note u = unregister_client_subs [OF inv, of c]
  have "subs_tracked (AList.delete c (client_streams m)) (subscriptions (unregister_client c m))"
    unfolding subs_tracked_def
  proof
    fix s assume "s \<in> set (all_subs (subscriptions (unregister_client c m)))"
    then have s: "s \<in> set (all_subs (subscriptions m))" "client_id s \<noteq> c"
      using u by auto
    then show "\<exists>ss. map_of (AList.delete c (client_streams m)) (client_id s) = Some ss \<and> stream_id s \<in> set ss"
      using inv by (auto simp: sse_inv_def subs_tracked_def delete_conv')
  qed
  with u inv show ?thesis
    by (simp add: sse_inv_def distinct_delete_keys)
qed

lemma unregister_client_twice: "unregister_client c (unregister_client c m) = unregister_client c m"
  by (auto simp: unregister_client_def Let_def delete_conv' delete_idem split: option.splits)


subsection \<open>Adding a subscription\<close>

lemma mset_all_subs_push: "mset (all_subs (push_entry k s L)) = add_mset s (mset (all_subs L))"
  by (induction L) (auto simp: push_entry_def)

lemma set_all_subs_push: "set (all_subs (push_entry k s L)) = insert s (set (all_subs L))"
  by (metis mset_all_subs_push set_mset_add_mset_insert set_mset_mset)

lemma subs_ok_push:
  assumes "subs_ok ks L" "k \<in> ks" "sub_symbol s = k" "stream_id s = stream_id_of k (data_type s) (max_levels s)"
  shows "subs_ok ks (push_entry k s L)"
proof -
  have d: "distinct (map fst L)" using assms(1) by (simp add: subs_ok_def)
  have "subs_keyed (push_entry k s L)"
    unfolding subs_keyed_def
  proof (intro ballI, clarify)
    fix k' v' x assume "(k', v') \<in> set (push_entry k s L)" "x \<in> set v'"
    with in_push_entry [OF _ d] assms show "sub_symbol x = k' \<and> stream_id x = stream_id_of k' (data_type x) (max_levels x)"
      unfolding subs_ok_def subs_keyed_def by fastforce
  qed
  moreover have "v' \<noteq> [] \<and> k' \<in> ks" if "(k', v') \<in> set (push_entry k s L)" for k' v'
    using in_push_entry [OF that d] assms(1,2) by (auto simp: subs_ok_def)
  ultimately show ?thesis
    using d by (auto simp: subs_ok_def distinct_push_entry)
qed

lemma subs_ok_mono: "subs_ok ks L \<Longrightarrow> ks \<subseteq> ks' \<Longrightarrow> subs_ok ks' L"
  by (auto simp: subs_ok_def)

lemma subs_tracked_push_stream: "subs_tracked cst L \<Longrightarrow> subs_tracked (push_entry c sid cst) L"
  by (fastforce simp: subs_tracked_def map_of_push_entry)

lemma subs_tracked_push:
  "subs_tracked cst L \<Longrightarrow> client_id s = c \<Longrightarrow> stream_id s = sid \<Longrightarrow>
   subs_tracked (push_entry c sid cst) (push_entry k s L)"
  using subs_tracked_push_stream [of cst L c sid]
  by (auto simp: subs_tracked_def set_all_subs_push map_of_push_entry)

lemma initialize_symbol_inv: "sse_inv m \<Longrightarrow> sse_inv (initialize_symbol now rng sy m)"
proof -
  assume inv: "sse_inv m"
  have "book_inv (initialize_with_sample_data now rng (new_order_book sy))"
    using initialize_fresh_orders by blast
  moreover have "subs_ok (fst ` set (order_books (initialize_symbol now rng sy m))) (subscriptions m)"
    using inv by (auto simp: sse_inv_def initialize_symbol_def dom_update elim: subs_ok_mono)
  ultimately show ?thesis
    using inv by (auto simp: sse_inv_def initialize_symbol_def distinct_update in_set_update)
qed

lemma initialize_symbol_fields [simp]:
  "subscriptions (initialize_symbol now rng sy m) = subscriptions m"
  "clients (initialize_symbol now rng sy m) = clients m"
  "client_streams (initialize_symbol now rng sy m) = client_streams m"
  by (simp_all add: initialize_symbol_def)

lemma new_sse_subscription_fields [simp]:
  "stream_id (new_sse_subscription sid sy dt ml c) = sid"
  "sub_symbol (new_sse_subscription sid sy dt ml c) = sy"
  "data_type (new_sse_subscription sid sy dt ml c) = dt"
  "max_levels (new_sse_subscription sid sy dt (Some l) c) = l"
  "client_id (new_sse_subscription sid sy dt ml c) = c"
  by (simp_all add: new_sse_subscription_def)


lemma add_stream_fields:
  "clients (add_stream now rng c sy dt ml m) = clients m"
  "map_of (order_books (add_stream now rng c sy dt ml m)) sy =
     Some (case map_of (order_books m) sy of
             None \<Rightarrow> initialize_with_sample_data now (rng sy) (new_order_book sy) | Some ob \<Rightarrow> ob)"
  "mset (all_subs (subscriptions (add_stream now rng c sy dt ml m)))
     = add_mset (new_sse_subscription (stream_id_of sy dt ml) sy dt (Some ml) c) (mset (all_subs (subscriptions m)))"
  by (simp_all add: add_stream_def Let_def initialize_symbol_def update_conv' mset_all_subs_push split: option.splits)

lemma add_stream_inv: "sse_inv m \<Longrightarrow> sse_inv (add_stream now rng c sy dt ml m)"
proof -
  assume inv: "sse_inv m"
  let ?m1 = "if map_of (order_books m) sy = None then initialize_symbol now (rng sy) sy m else m"
  let ?sub = "new_sse_subscription (stream_id_of sy dt ml) sy dt (Some ml) c"
  have inv1: "sse_inv ?m1"
    using inv by (simp add: initialize_symbol_inv)
  have "map_of (order_books ?m1) sy \<noteq> None"
    by (simp add: initialize_symbol_def update_conv')
  then have sy: "sy \<in> fst ` set (order_books ?m1)"
    by (simp add: in_keys_iff)
  have "subs_ok (fst ` set (order_books ?m1)) (push_entry sy ?sub (subscriptions ?m1))"
    using inv1 sy by (intro subs_ok_push) (simp_all add: sse_inv_def)
  moreover have "subs_tracked (push_entry c (stream_id_of sy dt ml) (client_streams ?m1))
                   (push_entry sy ?sub (subscriptions ?m1))"
    using inv1 by (intro subs_tracked_push) (simp_all add: sse_inv_def)
  ultimately show ?thesis
    using inv1 by (simp add: add_stream_def Let_def sse_inv_def distinct_push_entry del: if_split)
qed


lemma subscribe_loop_inv:
  "subscribe_loop now rng c defs m cs = (r, m', cs') \<Longrightarrow> sse_inv m \<Longrightarrow> sse_inv m'"
proof (induction now rng c defs m cs arbitrary: r m' cs' rule: subscribe_loop.induct)
  case (2 now rng c sy dt ml defs m cs)
  have "sse_inv (add_stream now rng c sy dt ml m)"
    using "2.prems"(2) by (rule add_stream_inv)
  with "2.IH" "2.prems"(1) show ?case
    by (auto simp: Let_def split: option.splits prod.splits bool.splits)
qed simp

lemma subscribe_loop_unknown:
  "map_of (clients m) c = None \<Longrightarrow>
   \<exists>m'. subscribe_loop now rng c defs m cs = (Inr (), m', cs)
        \<and> clients m' = clients m
        \<and> mset (all_subs (subscriptions m')) = mset (all_subs (subscriptions m))
             + mset (map (\<lambda>(sy, dt, ml). new_sse_subscription (stream_id_of sy dt ml) sy dt (Some ml) c) defs)"
proof (induction defs arbitrary: m)
  case (Cons d defs)
  obtain sy dt ml where d: "d = (sy, dt, ml)" by (cases d) auto
  let ?m3 = "add_stream now rng c sy dt ml m"
  have "map_of (clients ?m3) c = None"
    using Cons.prems by (simp add: add_stream_fields)
  then obtain m' where "subscribe_loop now rng c defs ?m3 cs = (Inr (), m', cs)" "clients m' = clients ?m3"
      "mset (all_subs (subscriptions m')) = mset (all_subs (subscriptions ?m3))
         + mset (map (\<lambda>(sy, dt, ml). new_sse_subscription (stream_id_of sy dt ml) sy dt (Some ml) c) defs)"
    using Cons.IH by blast
  with Cons.prems d show ?case
    by (auto simp: Let_def add_stream_fields split: option.splits)
qed simp

lemma subscribe_loop_single:
  "map_of (clients m) c = Some tx \<Longrightarrow> ch_open (cs tx) \<Longrightarrow>
   subscribe_loop now rng c [(sy, dt, ml)] m cs =
     (Inr (), add_stream now rng c sy dt ml m,
      snd (send_msg tx (MarketData (stream_id_of sy dt ml) sy
             (market_snapshot now dt ml (the (map_of (order_books (add_stream now rng c sy dt ml m)) sy)))
             (sequence (the (map_of (order_books (add_stream now rng c sy dt ml m)) sy))) now) cs))"
  by (simp add: Let_def add_stream_fields split: option.splits)


lemma remove_subscription_inv: "sse_inv m \<Longrightarrow> sse_inv (remove_subscription c sid m)"
proof -
  assume inv: "sse_inv m"
  then have ok: "subs_ok (fst ` set (order_books m)) (subscriptions m)"
    by (simp add: sse_inv_def)
  have "subs_tracked (client_streams m) (subscriptions (remove_subscription c sid m))"
    using inv all_subs_remove_subscription [OF ok, of c sid]
    by (auto simp: sse_inv_def subs_tracked_def)
  with inv ok show ?thesis
    by (simp add: sse_inv_def subs_ok_remove) (simp add: remove_subscription_def subs_ok_remove)
qed

lemma register_client_inv:
  "sse_inv m \<Longrightarrow> c \<notin> fst ` set (client_streams m) \<Longrightarrow> sse_inv (register_client c tx m)"
proof -
  assume inv: "sse_inv m" and fresh: "c \<notin> fst ` set (client_streams m)"
  have "subs_tracked (AList.update c [] (client_streams m)) (subscriptions m)"
    unfolding subs_tracked_def
  proof
    fix s assume s: "s \<in> set (all_subs (subscriptions m))"
    then obtain ss where "map_of (client_streams m) (client_id s) = Some ss" "stream_id s \<in> set ss"
      using inv by (auto simp: sse_inv_def subs_tracked_def)
    moreover then have "client_id s \<noteq> c"
      using fresh by (auto simp: in_keys_iff)
    ultimately show "\<exists>ss. map_of (AList.update c [] (client_streams m)) (client_id s) = Some ss \<and> stream_id s \<in> set ss"
      by (simp add: update_conv')
  qed
  with inv show ?thesis
    by (simp add: sse_inv_def register_client_def distinct_update)
qed


lemmas sse_eval = sse_example_def chans_example_def open_chan_def sse_inv_def subs_ok_def
  subs_keyed_def subs_tracked_def all_subs_def stream_id_of_def data_type_name_def
  register_client_def unregister_client_def remove_subscription_def

lemma sse_example_inv: "sse_inv sse_example"
  by (simp add: sse_eval spread_example_def book_eval)

subsection \<open>Properties of the registry\<close>

text \<open>
  C24 (roundtrip): the derived stream id \<open>{symbol}_{dataType:?}_{maxLevels}\<close> determines
  the symbol, the data type and the depth it was made from: distinct stream definitions get
  distinct ids, and one id lives under exactly one symbol.
\<close>
theorem stream_id_of_roundtrip:
  "stream_id_of sy dt ml = stream_id_of sy' dt' ml' \<longleftrightarrow> sy = sy' \<and> dt = dt' \<and> ml = ml'"
  by (rule stream_id_of_inj)

text \<open>
  C25 (refinement): on a well-formed registry, \<^verbatim>\<open>unregister_client\<close> removes exactly
  the client's subscriptions (the recorded ones become the old ones minus those of the
  client), drops its sender and its tracking entry, and keeps the registry well formed,
  although it finds the subscriptions only through the tracked stream ids and the removal
  loop stops at the first symbol that changed.
\<close>
theorem unregister_cascade:
  "sse_inv m \<Longrightarrow>
   all_subs (subscriptions (unregister_client c m)) = filter (\<lambda>s. client_id s \<noteq> c) (all_subs (subscriptions m))
   \<and> map_of (clients (unregister_client c m)) c = None
   \<and> map_of (client_streams (unregister_client c m)) c = None
   \<and> sse_inv (unregister_client c m)"
  using unregister_client_subs [of m c] unregister_client_inv [of m c]
  by (simp add: delete_conv')

theorem unregister_cascade_witness:
  "sse_inv (fst (snd (subscribe_to_streams 0 (\<lambda>_ i. (i, i)) 1 [(''XYZ'', MBP, 5)] sse_example chans_example)))
   \<and> all_subs (subscriptions (unregister_client 1
        (fst (snd (subscribe_to_streams 0 (\<lambda>_ i. (i, i)) 1 [(''XYZ'', MBP, 5)] sse_example chans_example))))) = []"
proof -
  obtain r m' cs' where eq:
      "subscribe_to_streams 0 (\<lambda>_ i. (i, i)) 1 [(''XYZ'', MBP, 5)] sse_example chans_example = (r, m', cs')"
    by (rule prod_cases3)
  have h: "sse_inv m'"
    using subscribe_loop_inv [OF eq [unfolded subscribe_to_streams_def] sse_example_inv] .
  have c: "map_of (clients sse_example) 1 = Some 0" "ch_open (chans_example 0)"
    by (simp_all add: sse_example_def chans_example_def open_chan_def)
  have m': "m' = add_stream 0 (\<lambda>_ i. (i, i)) 1 ''XYZ'' MBP 5 sse_example"
    using eq subscribe_loop_single [of sse_example 1 0 chans_example 0 "\<lambda>_ i. (i, i)" "''XYZ''" MBP 5] c
    by (simp add: subscribe_to_streams_def)
  have "set (all_subs (subscriptions m')) = {new_sse_subscription (stream_id_of ''XYZ'' MBP 5) ''XYZ'' MBP (Some 5) 1}"
    using add_stream_fields(3) [of 0 "\<lambda>_ i. (i, i)" 1 "''XYZ''" MBP 5 sse_example]
    by (simp add: m' sse_example_def)
  then have "filter (\<lambda>s. client_id s \<noteq> 1) (all_subs (subscriptions m')) = []"
    by (simp add: filter_empty_conv)
  then show ?thesis
    using h unregister_cascade [OF h, of 1] eq by simp
qed


text \<open>
  \<^verbatim>\<open>unregister_client\<close> is idempotent, on every registry.
\<close>
theorem unregister_idempotent: "unregister_client c (unregister_client c m) = unregister_client c m"
  by (rule unregister_client_twice)

text \<open>
  C30: subscribing a registered client with an open channel to one stream succeeds, leaves
  the symbol among the known symbols and the registry well formed, and pushes exactly one
  message to the client's channel, the snapshot of the stream's view with the book's sequence
  number; no other channel is touched (spec, section 8, subscription lifecycle).
\<close>
theorem subscribe_snapshot:
  "sse_inv m \<Longrightarrow> map_of (clients m) c = Some tx \<Longrightarrow> ch_open (cs tx) \<Longrightarrow>
   subscribe_to_streams now rng c [(sy, dt, ml)] m cs = (r, m', cs') \<Longrightarrow>
   r = Inr () \<and> sse_inv m' \<and> sy \<in> set (get_symbols m')
   \<and> (\<exists>ob. map_of (order_books m') sy = Some ob
          \<and> queued cs' tx = queued cs tx @ [MarketData (stream_id_of sy dt ml) sy (market_snapshot now dt ml ob) (sequence ob) now])
   \<and> (\<forall>t. t \<noteq> tx \<longrightarrow> cs' t = cs t)"
proof -
  assume inv: "sse_inv m" and c: "map_of (clients m) c = Some tx" "ch_open (cs tx)"
    and s: "subscribe_to_streams now rng c [(sy, dt, ml)] m cs = (r, m', cs')"
  obtain ob where ob: "map_of (order_books (add_stream now rng c sy dt ml m)) sy = Some ob"
    using add_stream_fields(2) by blast
  have eq: "r = Inr ()" "m' = add_stream now rng c sy dt ml m"
    "cs' = snd (send_msg tx (MarketData (stream_id_of sy dt ml) sy (market_snapshot now dt ml ob) (sequence ob) now) cs)"
    using s subscribe_loop_single [of m c tx cs now rng sy dt ml] c ob by (simp_all add: subscribe_to_streams_def)
  have "sy \<in> set (get_symbols m')"
    using ob eq(2) by (simp add: get_symbols_def in_keys_iff)
  with eq ob c inv show ?thesis
    by (auto simp: add_stream_inv queued_def)
qed

theorem subscribe_snapshot_witness:
  "sse_inv sse_example \<and> map_of (clients sse_example) 1 = Some 0 \<and> ch_open (chans_example 0)
   \<and> (case subscribe_to_streams 0 (\<lambda>_ i. (i, i)) 1 [(''XYZ'', MBP, 5)] sse_example chans_example of
        (r, m', cs') \<Rightarrow> r = Inr () \<and> length (queued cs' 0) = 1 \<and> ''XYZ'' \<in> set (get_symbols m'))"
proof -
  have h: "sse_inv sse_example" "map_of (clients sse_example) 1 = Some 0" "ch_open (chans_example 0)"
    by (rule sse_example_inv) (simp_all add: sse_example_def chans_example_def open_chan_def)
  obtain r m' cs' where eq:
      "subscribe_to_streams 0 (\<lambda>_ i. (i, i)) 1 [(''XYZ'', MBP, 5)] sse_example chans_example = (r, m', cs')"
    by (rule prod_cases3)
  have "queued chans_example 0 = []"
    by (simp add: queued_def chans_example_def open_chan_def)
  then show ?thesis
    using h subscribe_snapshot [OF h eq] eq by auto
qed

text \<open>
  C31 (error path): subscribing an unknown client returns \<open>Ok\<close>, sends nothing, and
  still records one subscription per stream definition; the spec says the call fails.
\<close>
theorem subscribe_unknown_client:
  "map_of (clients m) c = None \<Longrightarrow> subscribe_to_streams now rng c defs m cs = (r, m', cs') \<Longrightarrow>
   r = Inr () \<and> cs' = cs
   \<and> mset (all_subs (subscriptions m')) = mset (all_subs (subscriptions m))
        + mset (map (\<lambda>(sy, dt, ml). new_sse_subscription (stream_id_of sy dt ml) sy dt (Some ml) c) defs)"
  using subscribe_loop_unknown [of m c now rng defs cs] by (auto simp: subscribe_to_streams_def)

theorem subscribe_unknown_client_witness:
  "map_of (clients sse_example) 2 = None
   \<and> (case subscribe_to_streams 0 (\<lambda>_ i. (i, i)) 2 [(''XYZ'', MBO, 3)] sse_example chans_example of
        (r, m', cs') \<Rightarrow> r = Inr () \<and> cs' = chans_example \<and> length (all_subs (subscriptions m')) = 1)"
proof -
  have h: "map_of (clients sse_example) 2 = None" by (simp add: sse_example_def)
  obtain r m' cs' where eq:
      "subscribe_to_streams 0 (\<lambda>_ i. (i, i)) 2 [(''XYZ'', MBO, 3)] sse_example chans_example = (r, m', cs')"
    by (rule prod_cases3)
  have "all_subs (subscriptions sse_example) = []" by (simp add: sse_example_def)
  then show ?thesis
    using h subscribe_unknown_client [OF h eq] eq by (auto dest: mset_eq_length)
qed

text \<open>
  A counterexample to the spec's registration rule: registering a live client id again
  resets its tracked streams to empty while its subscriptions stay; the registry invariant
  breaks, and a later \<^verbatim>\<open>unregister_client\<close> leaves the old subscription behind.
\<close>
theorem register_reuse_orphans:
  "sse_inv (add_stream 0 (\<lambda>_ i. (i, i)) 1 ''XYZ'' MBP 5 sse_example)
   \<and> \<not> sse_inv (register_client 1 7 (add_stream 0 (\<lambda>_ i. (i, i)) 1 ''XYZ'' MBP 5 sse_example))
   \<and> map_of (clients (unregister_client 1 (register_client 1 7 (add_stream 0 (\<lambda>_ i. (i, i)) 1 ''XYZ'' MBP 5 sse_example)))) 1 = None
   \<and> (\<exists>s \<in> set (all_subs (subscriptions
         (unregister_client 1 (register_client 1 7 (add_stream 0 (\<lambda>_ i. (i, i)) 1 ''XYZ'' MBP 5 sse_example))))).
         client_id s = 1)"
proof -
  have i: "sse_inv (add_stream 0 (\<lambda>_ i. (i, i)) 1 ''XYZ'' MBP 5 sse_example)"
    by (rule add_stream_inv [OF sse_example_inv])
  have a: "add_stream 0 (\<lambda>_ i. (i, i)) 1 ''XYZ'' MBP 5 sse_example =
     sse_example\<lparr>subscriptions := [(''XYZ'', [new_sse_subscription (stream_id_of ''XYZ'' MBP 5) ''XYZ'' MBP (Some 5) 1])],
                 client_streams := [(1, [stream_id_of ''XYZ'' MBP 5])]\<rparr>"
    by (simp add: add_stream_def sse_example_def push_entry_def Let_def)
  show ?thesis
    unfolding a using i a by (simp add: sse_eval)
qed

end
