(* ===== verification/SseServer.thy ===== *)
theory SseServer
  imports SseRegistry
begin

text \<open>
  The SSE server as a whole: the two background loops of
  \<^verbatim>\<open>src/backend-sse/src/stream_manager.rs\<close> (\<^verbatim>\<open>start_market_simulation\<close>,
  one tick every 300 ms, and \<^verbatim>\<open>start_heartbeat\<close>, one tick every 30 s), the
  connection handler and the event stream of \<^verbatim>\<open>src/backend-sse/src/sse_handler.rs\<close>,
  and a step relation that interleaves them. A world is the registry, the channel store
  and the live event streams (client id and the channel its stream drains). The events
  are: a connection (\<^verbatim>\<open>sse_handler\<close> with a fresh \<^verbatim>\<open>Uuid::new_v4\<close> and a new
  channel), a client going away (axum drops the stream and with it the receiver), the
  stream observing the end of its channel (\<^verbatim>\<open>Poll::Ready(None)\<close>, possible only once
  no sender of the channel is left), a simulation tick and a heartbeat tick. Each event is
  atomic; the time between a tick's reads is not split.
\<close>

text \<open>The inner loop of a simulation tick for one symbol: every subscription of the
  symbol whose client still has a sender gets the view it asked for.\<close>

definition deliver_subs ::
  "millis \<Rightarrow> string \<Rightarrow> order_book \<Rightarrow> sse_subscription list \<Rightarrow> sse_manager \<Rightarrow> sse_message chans \<Rightarrow> sse_message chans" where
  "deliver_subs now sy ob subs m cs =
     fold (\<lambda>s cs. case map_of (clients m) (client_id s) of
                    None \<Rightarrow> cs
                  | Some tx \<Rightarrow> snd (send_msg tx (MarketData (stream_id s) sy
                                   (market_snapshot now (data_type s) (max_levels s) ob) (sequence ob) now) cs))
       subs cs"

text \<open>The symbol loop of a tick: simulate, then deliver from the mutated book. A book whose
  simulation does not return (the generator's retry never ends) stops the tick.\<close>

fun sim_tick_books ::
  "millis \<Rightarrow> (string \<Rightarrow> nat \<times> draw list) \<Rightarrow> (string \<times> order_book) list \<Rightarrow> sse_manager
   \<Rightarrow> sse_message chans \<Rightarrow> ((string \<times> order_book) list \<times> sse_message chans) option" where
  "sim_tick_books now dr [] m cs = Some ([], cs)"
| "sim_tick_books now dr ((sy, ob) # rest) m cs =
     (case simulate_activity now (fst (dr sy)) ob (snd (dr sy)) of
        None \<Rightarrow> None
      | Some (acts, ob', ds') \<Rightarrow>
          (let cs1 = deliver_subs now sy ob'
                       (case map_of (subscriptions m) sy of None \<Rightarrow> [] | Some v \<Rightarrow> v) m cs
           in case sim_tick_books now dr rest m cs1 of
                None \<Rightarrow> None
              | Some (rest', cs2) \<Rightarrow> Some ((sy, ob') # rest', cs2)))"

definition simulation_tick ::
  "millis \<Rightarrow> (string \<Rightarrow> nat \<times> draw list) \<Rightarrow> sse_manager \<Rightarrow> sse_message chans
   \<Rightarrow> (sse_manager \<times> sse_message chans) option" where
  "simulation_tick now dr m cs =
     (case sim_tick_books now dr (order_books m) m cs of
        None \<Rightarrow> None
      | Some (books, cs') \<Rightarrow> Some (m\<lparr>order_books := books\<rparr>, cs'))"

definition heartbeat_tick :: "millis \<Rightarrow> sse_manager \<Rightarrow> sse_message chans \<Rightarrow> sse_message chans" where
  "heartbeat_tick now m cs = fold (\<lambda>(c, tx) cs. snd (send_msg tx (HeartBeat now) cs)) (clients m) cs"

text \<open>\<^verbatim>\<open>sse_handler\<close>: register the client with its sender, send the connection
  info, subscribe to the requested streams or to \<open>BTCUSD:MBP:20\<close>; a failed subscription
  answers 400 (requested streams) or 500 (default stream).\<close>

definition sse_handler ::
  "millis \<Rightarrow> (string \<Rightarrow> nat \<Rightarrow> nat \<times> nat) \<Rightarrow> uuid \<Rightarrow> chan_id \<Rightarrow> stream_query
   \<Rightarrow> sse_manager \<Rightarrow> sse_message chans \<Rightarrow> (nat + unit) \<times> sse_manager \<times> sse_message chans" where
  "sse_handler now rng c tx q m cs =
     (let cs0 = open_chan tx cs;
          m1 = register_client c tx m;
          cs1 = send_connection_info now c m1 cs0;
          defs = parse_streams q
      in if defs \<noteq> [] then
           (case subscribe_to_streams now rng c defs m1 cs1 of
              (Inl e, m2, cs2) \<Rightarrow> (Inl 400, m2, cs2)
            | (Inr u, m2, cs2) \<Rightarrow> (Inr (), m2, cs2))
         else
           (case subscribe_to_streams now rng c [(''BTCUSD'', MBP, 20)] m1 cs1 of
              (Inl e, m2, cs2) \<Rightarrow> (Inl 500, m2, cs2)
            | (Inr u, m2, cs2) \<Rightarrow> (Inr (), m2, cs2)))"

text \<open>\<^verbatim>\<open>SSEStream::poll_next\<close>: a message becomes an event named after its variant,
  with the stream id as event id for market data; the end of the channel unregisters the
  client.\<close>

definition sse_poll_next ::
  "uuid \<Rightarrow> sse_message option \<Rightarrow> sse_manager \<Rightarrow> (string \<times> string option) option \<times> sse_manager" where
  "sse_poll_next c msg m =
     (case msg of
        Some x \<Rightarrow> (Some (sse_event_name x, case x of MarketData sid _ _ _ _ \<Rightarrow> Some sid | _ \<Rightarrow> None), m)
      | None \<Rightarrow> (None, unregister_client c m))"

subsection \<open>The server as a step relation\<close>

record sse_world =
  mgr :: sse_manager
  chans :: "sse_message chans"
  streams :: "(uuid \<times> chan_id) list"

datatype sse_event =
  Connect millis "string \<Rightarrow> nat \<Rightarrow> nat \<times> nat" uuid chan_id stream_query
| Disconnect uuid chan_id
| StreamEnd uuid chan_id
| SimTick millis "string \<Rightarrow> nat \<times> draw list"
| HeartbeatTick millis

definition closed_chans :: "sse_message chans" where
  "closed_chans = (\<lambda>_. \<lparr>ch_open = False, ch_queue = []\<rparr>)"

text \<open>
  One event. The guards of \<open>Connect\<close> state what \<^verbatim>\<open>Uuid::new_v4\<close> and
  \<^verbatim>\<open>mpsc::unbounded_channel\<close> provide (an unused id, a new channel); when the
  handler fails, its receiver is dropped with the handler's frame. \<open>StreamEnd\<close> is
  enabled only when the channel has no sender left in the registry, which is when a
  tokio receiver stream yields \<open>None\<close>.
\<close>

fun sse_exec :: "sse_event \<Rightarrow> sse_world \<Rightarrow> sse_world option" where
  "sse_exec (Connect now rng c tx q) w =
     (if c \<notin> fst ` set (clients (mgr w)) \<and> c \<notin> fst ` set (client_streams (mgr w))
         \<and> \<not> ch_open (chans w tx) \<and> tx \<notin> snd ` set (clients (mgr w)) \<and> tx \<notin> snd ` set (streams w)
      then Some (case sse_handler now rng c tx q (mgr w) (chans w) of
                   (Inr u, m', cs') \<Rightarrow> w\<lparr>mgr := m', chans := cs', streams := (c, tx) # streams w\<rparr>
                 | (Inl e, m', cs') \<Rightarrow> w\<lparr>mgr := m', chans := close_chan tx cs'\<rparr>)
      else None)"
| "sse_exec (Disconnect c tx) w =
     (if (c, tx) \<in> set (streams w)
      then Some (w\<lparr>chans := close_chan tx (chans w), streams := removeAll (c, tx) (streams w)\<rparr>)
      else None)"
| "sse_exec (StreamEnd c tx) w =
     (if (c, tx) \<in> set (streams w) \<and> tx \<notin> snd ` set (clients (mgr w))
      then Some (w\<lparr>mgr := snd (sse_poll_next c None (mgr w)), streams := removeAll (c, tx) (streams w)\<rparr>)
      else None)"
| "sse_exec (SimTick now dr) w =
     (case simulation_tick now dr (mgr w) (chans w) of
        None \<Rightarrow> None
      | Some (m', cs') \<Rightarrow> Some (w\<lparr>mgr := m', chans := cs'\<rparr>))"
| "sse_exec (HeartbeatTick now) w = Some (w\<lparr>chans := heartbeat_tick now (mgr w) (chans w)\<rparr>)"

text \<open>What holds of every reachable world: the registry invariant, and every live
  stream's client is registered with the stream's channel as its sender.\<close>

definition world_inv :: "sse_world \<Rightarrow> bool" where
  "world_inv w \<longleftrightarrow> sse_inv (mgr w) \<and> (\<forall>(c, tx) \<in> set (streams w). map_of (clients (mgr w)) c = Some tx)"

inductive sse_reach :: "sse_world \<Rightarrow> bool" where
  start: "sse_reach \<lparr>mgr = sse_start now rng new_sse_manager, chans = closed_chans, streams = []\<rparr>"
| step: "sse_reach w \<Longrightarrow> sse_exec e w = Some w' \<Longrightarrow> sse_reach w'"


subsection \<open>Routing of a tick\<close>

lemma sender_in_clients: "map_of (clients m) c = Some tx \<Longrightarrow> tx \<in> snd ` set (clients m)"
  by (auto dest: map_of_SomeD intro: image_eqI [of _ snd "(c, tx)"])

lemma deliver_subs_other:
  "tx \<notin> snd ` set (clients m) \<Longrightarrow> deliver_subs now sy ob subs m cs tx = cs tx"
proof (induction subs arbitrary: cs)
  case (Cons s subs)
  have "(case map_of (clients m) (client_id s) of None \<Rightarrow> cs
         | Some tx' \<Rightarrow> snd (send_msg tx' (MarketData (stream_id s) sy
                         (market_snapshot now (data_type s) (max_levels s) ob) (sequence ob) now) cs)) tx = cs tx"
  proof (cases "map_of (clients m) (client_id s)")
    case (Some tx')
    then have "tx \<noteq> tx'"
      using Cons.prems sender_in_clients by blast
    with Some show ?thesis by (simp add: send_msg_other)
  qed simp
  with Cons show ?case
    by (simp add: deliver_subs_def)
qed (simp add: deliver_subs_def)

lemma deliver_subs_open: "ch_open (deliver_subs now sy ob subs m cs t) = ch_open (cs t)"
  by (induction subs arbitrary: cs) (simp_all add: deliver_subs_def send_msg_open_same split: option.splits)

lemma queued_deliver_subs:
  "queued (deliver_subs now sy ob subs m cs) t =
     queued cs t @ (if ch_open (cs t)
                    then map (\<lambda>s. MarketData (stream_id s) sy (market_snapshot now (data_type s) (max_levels s) ob)
                                     (sequence ob) now)
                           (filter (\<lambda>s. map_of (clients m) (client_id s) = Some t) subs)
                    else [])"
proof (induction subs arbitrary: cs)
  case (Cons s subs)
  let ?cs1 = "case map_of (clients m) (client_id s) of None \<Rightarrow> cs
         | Some tx' \<Rightarrow> snd (send_msg tx' (MarketData (stream_id s) sy
                         (market_snapshot now (data_type s) (max_levels s) ob) (sequence ob) now) cs)"
  have d: "deliver_subs now sy ob (s # subs) m cs = deliver_subs now sy ob subs m ?cs1"
    by (simp add: deliver_subs_def)
  have o: "ch_open (?cs1 t) = ch_open (cs t)"
    by (simp add: send_msg_open_same split: option.splits)
  have q: "queued ?cs1 t = queued cs t @ (if ch_open (cs t) \<and> map_of (clients m) (client_id s) = Some t
             then [MarketData (stream_id s) sy (market_snapshot now (data_type s) (max_levels s) ob) (sequence ob) now]
             else [])"
    by (auto simp: send_msg_def queued_def split: option.splits)
  show ?case
    unfolding d Cons.IH o q by simp
qed (simp add: deliver_subs_def)

lemma sim_tick_books_props:
  "sim_tick_books now dr books m cs = Some (books', cs') \<Longrightarrow>
   map fst books' = map fst books
   \<and> ((\<forall>(k, ob) \<in> set books. book_inv ob) \<longrightarrow> (\<forall>(k, ob) \<in> set books'. book_inv ob))
   \<and> (\<forall>tx. tx \<notin> snd ` set (clients m) \<longrightarrow> cs' tx = cs tx)"
proof (induction now dr books m cs arbitrary: books' cs' rule: sim_tick_books.induct)
  case (2 now dr sy ob rest m cs)
  then obtain acts ob' ds' rest' cs2 where
    sim: "simulate_activity now (fst (dr sy)) ob (snd (dr sy)) = Some (acts, ob', ds')" and
    rec: "sim_tick_books now dr rest m
            (deliver_subs now sy ob' (case map_of (subscriptions m) sy of None \<Rightarrow> [] | Some v \<Rightarrow> v) m cs)
          = Some (rest', cs2)" and
    res: "books' = (sy, ob') # rest'" "cs' = cs2"
    by (auto simp: Let_def split: option.splits prod.splits)
  have "book_inv ob \<Longrightarrow> book_inv ob'"
    using sim by (auto simp: simulate_activity_def intro: simulate_loop_inv)
  with "2.IH" [OF sim refl refl refl rec] res show ?case
    by (auto simp: deliver_subs_other)
qed simp

lemma simulation_tick_props:
  "simulation_tick now dr m cs = Some (m', cs') \<Longrightarrow>
   (sse_inv m \<longrightarrow> sse_inv m') \<and> clients m' = clients m
   \<and> (\<forall>tx. tx \<notin> snd ` set (clients m) \<longrightarrow> cs' tx = cs tx)"
proof -
  assume t: "simulation_tick now dr m cs = Some (m', cs')"
  then obtain books where b: "sim_tick_books now dr (order_books m) m cs = Some (books, cs')"
      "m' = m\<lparr>order_books := books\<rparr>"
    by (auto simp: simulation_tick_def split: option.splits)
  note p = sim_tick_books_props [OF b(1)]
  have "fst ` set books = fst ` set (order_books m)"
    using p by (metis list.set_map)
  with p b(2) show ?thesis
    by (auto simp: sse_inv_def)
qed

lemma heartbeat_tick_other:
  "tx \<notin> snd ` set (clients m) \<Longrightarrow> heartbeat_tick now m cs tx = cs tx"
proof -
  assume tx: "tx \<notin> snd ` set (clients m)"
  have "\<forall>p \<in> set xs. snd p \<noteq> tx \<Longrightarrow> fold (\<lambda>(c, t) cs. snd (send_msg t (HeartBeat now) cs)) xs cs tx = cs tx" for xs cs
    by (induction xs arbitrary: cs) (auto simp: send_msg_other)
  moreover have "\<forall>p \<in> set (clients m). snd p \<noteq> tx"
    using tx by (metis image_eqI)
  ultimately show ?thesis
    by (simp add: heartbeat_tick_def)
qed


subsection \<open>Connections and the reachable worlds\<close>

lemma subscribe_loop_clients: "clients (fst (snd (subscribe_loop now rng c defs m cs))) = clients m"
proof (induction now rng c defs m cs rule: subscribe_loop.induct)
  case (2 now rng c sy dt ml defs m cs)
  have a: "clients (add_stream now rng c sy dt ml m) = clients m"
    by (rule add_stream_fields(1))
  show ?case
    apply (simp only: subscribe_loop.simps Let_def)
    using "2.IH" a by (auto split: option.split prod.split bool.split)
qed simp

lemma subscribe_loop_inv_fst: "sse_inv m \<Longrightarrow> sse_inv (fst (snd (subscribe_loop now rng c defs m cs)))"
  by (metis prod.collapse subscribe_loop_inv)

lemma sse_handler_mgr:
  "fst (snd (sse_handler now rng c tx q m cs)) =
     fst (snd (subscribe_loop now rng c
        (if parse_streams q \<noteq> [] then parse_streams q else [(''BTCUSD'', MBP, 20)])
        (register_client c tx m) (send_connection_info now c (register_client c tx m) (open_chan tx cs))))"
  by (simp add: sse_handler_def Let_def subscribe_to_streams_def split: prod.splits sum.splits)

lemma sse_handler_props:
  "clients (fst (snd (sse_handler now rng c tx q m cs))) = AList.update c tx (clients m)
   \<and> (sse_inv m \<longrightarrow> c \<notin> fst ` set (client_streams m) \<longrightarrow> sse_inv (fst (snd (sse_handler now rng c tx q m cs))))"
  unfolding sse_handler_mgr
  by (simp add: subscribe_loop_clients subscribe_loop_inv_fst register_client_inv)
     (simp add: register_client_def)

lemma sse_start_props: "sse_inv (sse_start now rng new_sse_manager) \<and> clients (sse_start now rng new_sse_manager) = []"
proof -
  have "sse_inv m \<Longrightarrow> sse_inv (fold (\<lambda>sy m. initialize_symbol now (rng sy) sy m) xs m)
        \<and> clients (fold (\<lambda>sy m. initialize_symbol now (rng sy) sy m) xs m) = clients m" for xs m
    by (induction xs arbitrary: m) (simp_all add: initialize_symbol_inv)
  moreover have "sse_inv new_sse_manager"
    by (simp add: new_sse_manager_def sse_inv_def subs_ok_def subs_keyed_def subs_tracked_def all_subs_def)
  ultimately show ?thesis
    by (simp add: sse_start_def new_sse_manager_def)
qed

lemma stream_end_disabled: "world_inv w \<Longrightarrow> sse_exec (StreamEnd c tx) w = None"
  by (auto simp: world_inv_def dest: sender_in_clients)


lemma connect_streams:
  assumes inv: "\<forall>(c', tx') \<in> set S. map_of cl c' = Some tx'" and fresh: "c \<notin> fst ` set cl"
  shows "\<forall>(c', tx') \<in> set S. map_of (AList.update c tx cl) c' = Some tx'"
proof (clarify)
  fix c' tx' assume "(c', tx') \<in> set S"
  with inv have "map_of cl c' = Some tx'" by blast
  moreover then have "c' \<noteq> c" using fresh by (auto simp: in_keys_iff)
  ultimately show "map_of (AList.update c tx cl) c' = Some tx'"
    by (simp add: update_conv')
qed

lemma sse_exec_inv:
  "world_inv w \<Longrightarrow> sse_exec e w = Some w' \<Longrightarrow>
   world_inv w' \<and> fst ` set (clients (mgr w)) \<subseteq> fst ` set (clients (mgr w'))"
proof (cases e)
  case (Connect now rng c tx q)
  assume inv: "world_inv w" and ex: "sse_exec e w = Some w'"
  let ?r = "sse_handler now rng c tx q (mgr w) (chans w)"
  have g: "c \<notin> fst ` set (clients (mgr w))" "c \<notin> fst ` set (client_streams (mgr w))"
    using ex Connect by (auto split: if_splits)
  have w': "w' = (case ?r of (Inr u, m', cs') \<Rightarrow> w\<lparr>mgr := m', chans := cs', streams := (c, tx) # streams w\<rparr>
                   | (Inl e, m', cs') \<Rightarrow> w\<lparr>mgr := m', chans := close_chan tx cs'\<rparr>)"
    using ex Connect by (auto split: if_splits)
  have mgr': "mgr w' = fst (snd ?r)"
    using w' by (auto split: prod.splits sum.splits)
  have cl: "clients (mgr w') = AList.update c tx (clients (mgr w))"
    using sse_handler_props [of now rng c tx q "mgr w" "chans w"] mgr' by simp
  have i: "sse_inv (mgr w')"
    using sse_handler_props [of now rng c tx q "mgr w" "chans w"] mgr' inv g by (simp add: world_inv_def)
  have s: "\<forall>(c', tx') \<in> set (streams w). map_of (clients (mgr w')) c' = Some tx'"
    unfolding cl using inv g(1) by (intro connect_streams) (simp_all add: world_inv_def)
  have "streams w' = streams w \<or> streams w' = (c, tx) # streams w"
    using w' by (auto split: prod.splits sum.splits)
  with i s cl show ?thesis
    by (auto simp: world_inv_def dom_update update_conv')
next
  case (Disconnect c tx)
  assume "world_inv w" "sse_exec e w = Some w'"
  with Disconnect show ?thesis
    by (auto simp: world_inv_def split: if_splits)
next
  case (StreamEnd c tx)
  assume "world_inv w" "sse_exec e w = Some w'"
  with StreamEnd stream_end_disabled show ?thesis by simp
next
  case (SimTick now dr)
  assume inv: "world_inv w" and ex: "sse_exec e w = Some w'"
  then obtain m' cs' where t: "simulation_tick now dr (mgr w) (chans w) = Some (m', cs')"
      "w' = w\<lparr>mgr := m', chans := cs'\<rparr>"
    using SimTick by (auto split: option.splits)
  with simulation_tick_props [OF t(1)] inv show ?thesis
    by (simp add: world_inv_def)
next
  case (HeartbeatTick now)
  assume "world_inv w" "sse_exec e w = Some w'"
  with HeartbeatTick show ?thesis
    by (auto simp: world_inv_def)
qed

lemma sse_reach_world_inv: "sse_reach w \<Longrightarrow> world_inv w"
proof (induction rule: sse_reach.induct)
  case (start now rng)
  then show ?case
    using sse_start_props [of now rng] by (simp add: world_inv_def)
next
  case (step w e w')
  then show ?case
    using sse_exec_inv by blast
qed


subsection \<open>Properties of the server\<close>

text \<open>
  C26 (invariant, rule induction over the step relation): in every world the server can
  reach, the registry is well formed and every live event stream's client is registered with
  that stream's channel as its sender.
\<close>
theorem sse_reach_inv:
  "sse_reach w \<Longrightarrow>
   sse_inv (mgr w) \<and> (\<forall>(c, tx) \<in> set (streams w). map_of (clients (mgr w)) c = Some tx)"
  using sse_reach_world_inv by (simp add: world_inv_def)

theorem sse_reach_inv_witness:
  "sse_reach \<lparr>mgr = sse_start 0 (\<lambda>_ i. (i, i)) new_sse_manager, chans = closed_chans, streams = []\<rparr>
   \<and> sse_inv (sse_start 0 (\<lambda>_ i. (i, i)) new_sse_manager)"
proof -
  have h: "sse_reach \<lparr>mgr = sse_start 0 (\<lambda>_ i. (i, i)) new_sse_manager, chans = closed_chans, streams = []\<rparr>"
    by (rule sse_reach.start)
  show ?thesis
    using h sse_reach_inv [OF h] by simp
qed

text \<open>
  C27 (code bug): no event of the SSE server ever removes a registered client, and the
  event that would (the stream seeing its channel end) is never enabled: the client's sender
  stays in the registry, so its receiver stream never ends, and \<^verbatim>\<open>unregister_client\<close>
  (called only from \<^verbatim>\<open>poll_next\<close> on \<^verbatim>\<open>Ready(None)\<close>) never runs. Clients that
  go away keep their registry entries and subscriptions forever; the spec says disconnection
  destroys the client and its subscriptions.
\<close>
theorem sse_clients_never_removed:
  "sse_reach w \<Longrightarrow> sse_exec e w = Some w' \<Longrightarrow>
   fst ` set (clients (mgr w)) \<subseteq> fst ` set (clients (mgr w')) \<and> sse_exec (StreamEnd c tx) w = None"
  using sse_reach_world_inv sse_exec_inv stream_end_disabled by blast

theorem sse_clients_never_removed_witness:
  "sse_reach \<lparr>mgr = sse_start 0 (\<lambda>_ i. (i, i)) new_sse_manager, chans = closed_chans, streams = []\<rparr>
   \<and> sse_exec (StreamEnd 1 0) \<lparr>mgr = sse_start 0 (\<lambda>_ i. (i, i)) new_sse_manager, chans = closed_chans, streams = []\<rparr> = None"
proof -
  let ?w = "\<lparr>mgr = sse_start 0 (\<lambda>_ i. (i, i)) new_sse_manager, chans = closed_chans, streams = []\<rparr>"
  have h: "sse_reach ?w" by (rule sse_reach.start)
  have e: "sse_exec (HeartbeatTick 0) ?w = Some (?w\<lparr>chans := heartbeat_tick 0 (mgr ?w) (chans ?w)\<rparr>)"
    by simp
  show ?thesis
    using h sse_clients_never_removed [OF h e, of 1 0] by simp
qed

text \<open>
  C28 (safety): a channel that is no registered client's sender (the channel of an
  unregistered client) is left untouched by a simulation tick and by a heartbeat tick
  (spec, section 8: after \<^verbatim>\<open>UnregisterClient\<close> no tick sends to the client).
\<close>
theorem ticks_skip_unregistered:
  "tx \<notin> snd ` set (clients m) \<Longrightarrow>
   (case simulation_tick now dr m cs of None \<Rightarrow> True | Some (m', cs') \<Rightarrow> cs' tx = cs tx)
   \<and> heartbeat_tick now m cs tx = cs tx"
  using simulation_tick_props [of now dr m cs] heartbeat_tick_other [of tx m now cs]
  by (auto split: option.splits)

theorem ticks_skip_unregistered_witness:
  "0 \<notin> snd ` set (clients (unregister_client 1 sse_example))
   \<and> simulation_tick 0 (\<lambda>_. (0, [cancel_draw])) (unregister_client 1 sse_example) chans_example \<noteq> None
   \<and> (case simulation_tick 0 (\<lambda>_. (0, [cancel_draw])) (unregister_client 1 sse_example) chans_example of
        None \<Rightarrow> True | Some (m', cs') \<Rightarrow> cs' 0 = chans_example 0)
   \<and> heartbeat_tick 0 (unregister_client 1 sse_example) chans_example 0 = chans_example 0"
proof -
  have h: "0 \<notin> snd ` set (clients (unregister_client 1 sse_example))"
    by (simp add: unregister_client_def sse_example_def)
  have t: "simulation_tick 0 (\<lambda>_. (0, [cancel_draw])) (unregister_client 1 sse_example) chans_example \<noteq> None"
    by (simp add: simulation_tick_def unregister_client_def sse_example_def simulate_activity_def
                  activity_eval projection_eval book_eval ladder_eval Let_def deliver_subs_def)
  show ?thesis
    using h t ticks_skip_unregistered [OF h, where now = 0 and dr = "\<lambda>_. (0, [cancel_draw])" and cs = chans_example]
    by simp
qed

text \<open>
  C29: one symbol's delivery step of the simulation tick appends to each open channel
  exactly the views of the symbol's subscriptions whose client has that channel as sender,
  in subscription order, each carrying the book's sequence number; closed channels get
  nothing (sends fail silently).
\<close>
theorem tick_routing:
  "queued (deliver_subs now sy ob subs m cs) t =
     queued cs t @ (if ch_open (cs t)
                    then map (\<lambda>s. MarketData (stream_id s) sy (market_snapshot now (data_type s) (max_levels s) ob)
                                     (sequence ob) now)
                           (filter (\<lambda>s. map_of (clients m) (client_id s) = Some t) subs)
                    else [])"
  by (rule queued_deliver_subs)

end
