(* ===== verification/WsMessages.thy ===== *)
theory WsMessages
  imports SseMessages Activity
begin

text \<open>
  The message vocabulary of the WebSocket server (\<^verbatim>\<open>src/backend/src/message.rs\<close>):
  the requests a client sends (\<^verbatim>\<open>ClientMessage\<close>), the messages the server pushes
  (\<^verbatim>\<open>ServerMessage\<close>), the payload of a market-data message
  (\<^verbatim>\<open>MarketDataUpdate\<close>, which here has a third variant carrying one order activity)
  and the subscription record. \<^verbatim>\<open>DataType\<close>, \<^verbatim>\<open>Side\<close>, \<^verbatim>\<open>MBOLevel\<close>,
  \<^verbatim>\<open>MBPLevel\<close>, \<^verbatim>\<open>OrderActivity\<close> and \<^verbatim>\<open>ActivityType\<close> are declared
  field for field as in the SSE server, so the types \<open>data_type\<close>, \<open>side\<close>,
  \<open>mbo_level\<close>, \<open>mbp_level\<close> and \<open>order_activity\<close> of the SSE theories stand for
  both. Serde's tagging is not modelled: a message is the value it serialises, and a text
  frame that does not decode is the decoder's error string.
\<close>

datatype client_message =
  Subscribe string string data_type "u32 option"
| Unsubscribe string
| Ping millis

datatype ws_update =
  WsMBO "mbo_level list" "mbo_level list"
| WsMBP "mbp_level list" "mbp_level list"
| WsOrderActivity order_activity

datatype server_message =
  Subscribed string string data_type
| Unsubscribed string
| WsMarketData string string ws_update u64 millis
| WsHeartBeat millis
| WsError u32 string "string option"

record subscription =
  sub_stream_id :: string
  sub_sym :: string
  sub_data_type :: data_type
  sub_max_levels :: u32
  sub_client :: uuid

text \<open>\<^verbatim>\<open>Subscription::new\<close>: the depth defaults to 20.\<close>

definition new_subscription ::
  "string \<Rightarrow> string \<Rightarrow> data_type \<Rightarrow> u32 option \<Rightarrow> uuid \<Rightarrow> subscription" where
  "new_subscription sid sy dt ml c =
     \<lparr>sub_stream_id = sid, sub_sym = sy, sub_data_type = dt,
      sub_max_levels = (case ml of Some l \<Rightarrow> l | None \<Rightarrow> 20), sub_client = c\<rparr>"

text \<open>The view of a book a subscription asks for: the \<open>match data_type\<close> blocks of
  \<^verbatim>\<open>start_market_simulation\<close>, \<^verbatim>\<open>subscribe\<close> and
  \<^verbatim>\<open>get_order_book_snapshot\<close>, which are the same code three times.\<close>

definition ws_view :: "millis \<Rightarrow> data_type \<Rightarrow> u32 \<Rightarrow> order_book \<Rightarrow> ws_update" where
  "ws_view now dt ml ob =
     (case dt of
        MBO \<Rightarrow> WsMBO (fst (get_mbo_data now ob ml)) (snd (get_mbo_data now ob ml))
      | MBP \<Rightarrow> WsMBP (fst (get_mbp_data now ob ml)) (snd (get_mbp_data now ob ml)))"

lemma new_subscription_fields [simp]:
  "sub_stream_id (new_subscription sid sy dt ml c) = sid"
  "sub_sym (new_subscription sid sy dt ml c) = sy"
  "sub_data_type (new_subscription sid sy dt ml c) = dt"
  "sub_client (new_subscription sid sy dt ml c) = c"
  by (simp_all add: new_subscription_def)

end
