(* ===== verification/WsServer.thy ===== *)
theory WsServer
  imports WsMessages Channels
begin

text \<open>
  The WebSocket server (\<^verbatim>\<open>src/backend\<close>): the registry \<^verbatim>\<open>StreamManager\<close> of
  \<^verbatim>\<open>src/backend/src/stream_manager.rs\<close>, its two background loops, and the
  per-connection tasks of \<^verbatim>\<open>src/backend/src/websocket_handler.rs\<close>, composed into a
  step function over worlds. The registry keeps three \<^verbatim>\<open>DashMap\<close>s, as association
  lists in iteration order: books by symbol, subscriptions by symbol, and client senders
  (channel names of \<^verbatim>\<open>Channels\<close>). Unlike the SSE registry it does not track the
  streams of a client: \<^verbatim>\<open>unregister_client\<close> filters every symbol's list, and
  \<^verbatim>\<open>unsubscribe\<close> takes a client-chosen stream id.
  The server's \<^verbatim>\<open>order_book.rs\<close> is not among the sources; the calls the manager
  makes of it (\<^verbatim>\<open>OrderBook::new\<close>, \<^verbatim>\<open>initialize_with_sample_data\<close>,
  \<^verbatim>\<open>simulate_activity\<close>, \<^verbatim>\<open>get_mbo_data\<close>, \<^verbatim>\<open>get_mbp_data\<close>,
  \<^verbatim>\<open>get_sequence\<close>) are taken to be those of the SSE server's book, modelled in
  \<^verbatim>\<open>OrderBook\<close>, \<^verbatim>\<open>Projection\<close> and \<^verbatim>\<open>Activity\<close>.
  The \<^verbatim>\<open>activity_broadcast\<close> channel keeps no state: its only receiver is dropped
  in \<^verbatim>\<open>new\<close> and \<^verbatim>\<open>get_activity_receiver\<close> is never called, so every
  \<^verbatim>\<open>send\<close> on it returns \<open>Err\<close> and stores nothing.
\<close>

record ws_manager =
  ws_books :: "(string \<times> order_book) list"
  ws_subs :: "(string \<times> subscription list) list"
  ws_clients :: "(uuid \<times> chan_id) list"

definition new_ws_manager :: ws_manager where
  "new_ws_manager = \<lparr>ws_books = [], ws_subs = [], ws_clients = []\<rparr>"

definition ws_initialize_symbol ::
  "millis \<Rightarrow> (nat \<Rightarrow> nat \<times> nat) \<Rightarrow> string \<Rightarrow> ws_manager \<Rightarrow> ws_manager" where
  "ws_initialize_symbol now rng sy m =
     m\<lparr>ws_books := AList.update sy (initialize_with_sample_data now rng (new_order_book sy)) (ws_books m)\<rparr>"

text \<open>The state changes of \<^verbatim>\<open>start\<close>; the loops it spawns are the ticks below.\<close>

definition ws_start :: "millis \<Rightarrow> (string \<Rightarrow> nat \<Rightarrow> nat \<times> nat) \<Rightarrow> ws_manager \<Rightarrow> ws_manager" where
  "ws_start now rng m =
     fold (\<lambda>sy m. ws_initialize_symbol now (rng sy) sy m) [''BTCUSD'', ''ETHUSD'', ''ADAUSD''] m"

text \<open>\<^verbatim>\<open>register_client\<close>: \<^verbatim>\<open>DashMap::insert\<close>, replacing a sender under
  the same id.\<close>

definition ws_register_client :: "uuid \<Rightarrow> chan_id \<Rightarrow> ws_manager \<Rightarrow> ws_manager" where
  "ws_register_client c tx m = m\<lparr>ws_clients := AList.update c tx (ws_clients m)\<rparr>"

text \<open>\<^verbatim>\<open>unregister_client\<close>: drop the sender, retain the other clients'
  subscriptions in every symbol's list, then drop the lists that became empty.\<close>

definition ws_unregister_client :: "uuid \<Rightarrow> ws_manager \<Rightarrow> ws_manager" where
  "ws_unregister_client c m =
     (let m1 = m\<lparr>ws_clients := AList.delete c (ws_clients m)\<rparr>;
          subs1 = map (\<lambda>(k, v). (k, filter (\<lambda>s. sub_client s \<noteq> c) v)) (ws_subs m1)
      in m1\<lparr>ws_subs := filter (\<lambda>(k, v). v \<noteq> []) subs1\<rparr>)"

text \<open>\<^verbatim>\<open>subscribe\<close>: create the book of an unseen symbol, push the subscription
  under its symbol, then send the initial snapshot if the book and the client's sender are
  found. A failed send is \<open>Err\<close>; the subscription stays. An unknown client is
  \<open>Ok\<close>.\<close>

definition ws_subscribe ::
  "millis \<Rightarrow> (nat \<Rightarrow> nat \<times> nat) \<Rightarrow> uuid \<Rightarrow> string \<Rightarrow> string \<Rightarrow> data_type \<Rightarrow> u32 option
   \<Rightarrow> ws_manager \<Rightarrow> server_message chans \<Rightarrow> (string + unit) \<times> ws_manager \<times> server_message chans" where
  "ws_subscribe now rng c sid sy dt ml m cs =
     (let m1 = (if map_of (ws_books m) sy = None then ws_initialize_symbol now rng sy m else m);
          sub = new_subscription sid sy dt ml c;
          m2 = m1\<lparr>ws_subs := push_entry sy sub (ws_subs m1)\<rparr>
      in case map_of (ws_books m2) sy of
           None \<Rightarrow> (Inr (), m2, cs)
         | Some ob \<Rightarrow>
             (case map_of (ws_clients m2) c of
                None \<Rightarrow> (Inr (), m2, cs)
              | Some tx \<Rightarrow>
                  (case send_msg tx (WsMarketData sid sy (ws_view now dt (case ml of Some l \<Rightarrow> l | None \<Rightarrow> 20) ob)
                                       (sequence ob) now) cs of
                     (False, cs') \<Rightarrow> (Inl ''Failed to send initial snapshot'', m2, cs')
                   | (True, cs') \<Rightarrow> (Inr (), m2, cs'))))"

text \<open>The \<^verbatim>\<open>iter_mut\<close> loop of \<^verbatim>\<open>unsubscribe\<close>: retain the
  non-matching subscriptions of each entry and return \<open>true\<close> at the first entry whose
  length changed; an emptied list is not removed.\<close>

definition ws_sub_match :: "uuid \<Rightarrow> string \<Rightarrow> subscription \<Rightarrow> bool" where
  "ws_sub_match c sid s \<longleftrightarrow> sub_client s = c \<and> sub_stream_id s = sid"

fun unsubscribe_entries ::
  "uuid \<Rightarrow> string \<Rightarrow> (string \<times> subscription list) list \<Rightarrow> bool \<times> (string \<times> subscription list) list" where
  "unsubscribe_entries c sid [] = (False, [])"
| "unsubscribe_entries c sid ((k, v) # rest) =
     (let v' = filter (\<lambda>s. \<not> ws_sub_match c sid s) v
      in if length v' \<noteq> length v then (True, (k, v') # rest)
         else (let (b, rest') = unsubscribe_entries c sid rest in (b, (k, v') # rest')))"

definition ws_unsubscribe :: "uuid \<Rightarrow> string \<Rightarrow> ws_manager \<Rightarrow> bool \<times> ws_manager" where
  "ws_unsubscribe c sid m =
     (let (b, subs') = unsubscribe_entries c sid (ws_subs m) in (b, m\<lparr>ws_subs := subs'\<rparr>))"

definition ws_get_symbols :: "ws_manager \<Rightarrow> string list" where
  "ws_get_symbols m = map fst (ws_books m)"

definition get_order_book_snapshot :: "millis \<Rightarrow> ws_manager \<Rightarrow> string \<Rightarrow> data_type \<Rightarrow> u32 \<Rightarrow> ws_update option" where
  "get_order_book_snapshot now m sy dt ml = map_option (ws_view now dt ml) (map_of (ws_books m) sy)"

definition get_client_sender :: "ws_manager \<Rightarrow> uuid \<Rightarrow> chan_id option" where
  "get_client_sender m c = map_of (ws_clients m) c"

text \<open>A send through \<^verbatim>\<open>get_client_sender\<close> whose result is ignored: nothing
  happens for an unknown client.\<close>

definition send_to_client :: "ws_manager \<Rightarrow> uuid \<Rightarrow> server_message \<Rightarrow> server_message chans \<Rightarrow> server_message chans" where
  "send_to_client m c msg cs = (case get_client_sender m c of None \<Rightarrow> cs | Some tx \<Rightarrow> snd (send_msg tx msg cs))"

subsection \<open>The background loops\<close>

text \<open>The delivery loop of one symbol in \<^verbatim>\<open>start_market_simulation\<close>.\<close>

definition ws_deliver_subs ::
  "millis \<Rightarrow> string \<Rightarrow> order_book \<Rightarrow> subscription list \<Rightarrow> ws_manager \<Rightarrow> server_message chans \<Rightarrow> server_message chans" where
  "ws_deliver_subs now sy ob subs m cs =
     fold (\<lambda>s cs. case map_of (ws_clients m) (sub_client s) of
                    None \<Rightarrow> cs
                  | Some tx \<Rightarrow> snd (send_msg tx (WsMarketData (sub_stream_id s) sy
                                   (ws_view now (sub_data_type s) (sub_max_levels s) ob) (sequence ob) now) cs))
       subs cs"

text \<open>The symbol loop of one tick: simulate (the activities go to the receiver-less
  broadcast), then deliver from the mutated book. A simulation that does not return stops
  the tick.\<close>

fun ws_tick_books ::
  "millis \<Rightarrow> (string \<Rightarrow> nat \<times> draw list) \<Rightarrow> (string \<times> order_book) list \<Rightarrow> ws_manager
   \<Rightarrow> server_message chans \<Rightarrow> ((string \<times> order_book) list \<times> server_message chans) option" where
  "ws_tick_books now dr [] m cs = Some ([], cs)"
| "ws_tick_books now dr ((sy, ob) # rest) m cs =
     (case simulate_activity now (fst (dr sy)) ob (snd (dr sy)) of
        None \<Rightarrow> None
      | Some (acts, ob', ds') \<Rightarrow>
          (let cs1 = ws_deliver_subs now sy ob' (case map_of (ws_subs m) sy of None \<Rightarrow> [] | Some v \<Rightarrow> v) m cs
           in case ws_tick_books now dr rest m cs1 of
                None \<Rightarrow> None
              | Some (rest', cs2) \<Rightarrow> Some ((sy, ob') # rest', cs2)))"

definition ws_simulation_tick ::
  "millis \<Rightarrow> (string \<Rightarrow> nat \<times> draw list) \<Rightarrow> ws_manager \<Rightarrow> server_message chans
   \<Rightarrow> (ws_manager \<times> server_message chans) option" where
  "ws_simulation_tick now dr m cs =
     (case ws_tick_books now dr (ws_books m) m cs of
        None \<Rightarrow> None
      | Some (books, cs') \<Rightarrow> Some (m\<lparr>ws_books := books\<rparr>, cs'))"

definition ws_heartbeat_tick :: "millis \<Rightarrow> ws_manager \<Rightarrow> server_message chans \<Rightarrow> server_message chans" where
  "ws_heartbeat_tick now m cs = fold (\<lambda>(c, tx) cs. snd (send_msg tx (WsHeartBeat now) cs)) (ws_clients m) cs"

subsection \<open>The connection handler\<close>

text \<open>\<^verbatim>\<open>handle_message\<close> after decoding: subscribe and acknowledge (or answer 500),
  unsubscribe and acknowledge (or answer 404), answer a ping with a heartbeat.\<close>

definition ws_handle_message ::
  "millis \<Rightarrow> (nat \<Rightarrow> nat \<times> nat) \<Rightarrow> uuid \<Rightarrow> client_message \<Rightarrow> ws_manager \<Rightarrow> server_message chans
   \<Rightarrow> ws_manager \<times> server_message chans" where
  "ws_handle_message now rng c msg m cs =
     (case msg of
        Subscribe sid sy dt ml \<Rightarrow>
          (case ws_subscribe now rng c sid sy dt ml m cs of
             (Inr u, m', cs') \<Rightarrow> (m', send_to_client m' c (Subscribed sid sy dt) cs')
           | (Inl e, m', cs') \<Rightarrow> (m', send_to_client m' c (WsError 500 (''Subscription failed: '' @ e) (Some sid)) cs'))
      | Unsubscribe sid \<Rightarrow>
          (let (ok, m') = ws_unsubscribe c sid m
           in (m', send_to_client m' c (if ok then Unsubscribed sid else WsError 404 ''Stream not found'' (Some sid)) cs))
      | Ping t \<Rightarrow> (m, send_to_client m c (WsHeartBeat now) cs))"

text \<open>The frames the incoming loop of \<^verbatim>\<open>handle_connection\<close> distinguishes; a text
  frame carries its decoded request or the decoder's error.\<close>

datatype ws_frame =
  TextFrame "string + client_message"
| PingFrame
| PongFrame
| CloseFrame
| BinaryFrame
| RawFrame
| FrameError

text \<open>One iteration of the incoming loop; \<open>False\<close> is \<^verbatim>\<open>break\<close>.\<close>

definition ws_incoming ::
  "millis \<Rightarrow> (nat \<Rightarrow> nat \<times> nat) \<Rightarrow> uuid \<Rightarrow> ws_frame \<Rightarrow> ws_manager \<Rightarrow> server_message chans
   \<Rightarrow> bool \<times> ws_manager \<times> server_message chans" where
  "ws_incoming now rng c fr m cs =
     (case fr of
        TextFrame (Inr msg) \<Rightarrow> (True, ws_handle_message now rng c msg m cs)
      | TextFrame (Inl e) \<Rightarrow> (True, m, send_to_client m c (WsError 400 (''Invalid message: '' @ e) None) cs)
      | CloseFrame \<Rightarrow> (False, m, cs)
      | FrameError \<Rightarrow> (False, m, cs)
      | _ \<Rightarrow> (True, m, cs))"


subsection \<open>The server as a step function\<close>

text \<open>
  A world is the registry, the channel store, the live halves of each connection and what
  has been written to each client's socket. Each connection of
  \<^verbatim>\<open>handle_connection\<close> runs two tasks on the client's channel: the reader (the
  incoming loop, which ends on a close frame, a socket error or the end of the stream, and
  then unregisters the client) and the writer (the spawned task that drains the channel
  onto the socket; it unregisters the client when a socket write fails or when the channel
  ends, which is once no sender of it is left). \<open>wused\<close> records every channel ever
  created, so that a new connection's channel is a new one.
\<close>

record ws_world =
  wmgr :: ws_manager
  wchans :: "server_message chans"
  readers :: "(uuid \<times> chan_id) list"
  writers :: "(uuid \<times> chan_id) list"
  wused :: "chan_id list"
  wire :: "(uuid \<times> server_message) list"

datatype ws_event =
  WsConnect millis uuid chan_id
| WsRecv millis "nat \<Rightarrow> nat \<times> nat" uuid ws_frame
| WsHangup uuid
| WsWrite uuid bool
| WsWriterEnd uuid
| WsSimTick millis "string \<Rightarrow> nat \<times> draw list"
| WsHeartbeatTick millis

text \<open>
  One event. \<open>WsConnect\<close>: \<^verbatim>\<open>Uuid::new_v4\<close> gives an unused id and
  \<^verbatim>\<open>mpsc::unbounded_channel\<close> a new channel; the client is registered and the
  welcome heartbeat is written to the socket before the writer starts. \<open>WsRecv\<close>: one
  frame through the incoming loop, with the unregistration after the loop when the frame
  ends it. \<open>WsHangup\<close>: the incoming stream ends. \<open>WsWrite c ok\<close>: the writer takes
  the oldest queued message and writes it, or fails to and stops (dropping the receiver).
  \<open>WsWriterEnd\<close>: \<open>recv\<close> returns \<open>None\<close>, enabled when the queue is empty and the
  registry holds no sender of the channel.
\<close>

fun ws_exec :: "ws_event \<Rightarrow> ws_world \<Rightarrow> ws_world option" where
  "ws_exec (WsConnect now c tx) w =
     (if c \<notin> fst ` set (ws_clients (wmgr w)) \<and> c \<notin> fst ` set (readers w) \<and> c \<notin> fst ` set (writers w)
         \<and> tx \<notin> set (wused w)
      then Some (w\<lparr>wmgr := ws_register_client c tx (wmgr w), wchans := open_chan tx (wchans w),
                   readers := (c, tx) # readers w, writers := (c, tx) # writers w, wused := tx # wused w,
                   wire := wire w @ [(c, WsHeartBeat now)]\<rparr>)
      else None)"
| "ws_exec (WsRecv now rng c fr) w =
     (case map_of (readers w) c of
        None \<Rightarrow> None
      | Some tx \<Rightarrow>
          (case ws_incoming now rng c fr (wmgr w) (wchans w) of
             (True, m', cs') \<Rightarrow> Some (w\<lparr>wmgr := m', wchans := cs'\<rparr>)
           | (False, m', cs') \<Rightarrow>
               Some (w\<lparr>wmgr := ws_unregister_client c m', wchans := cs', readers := AList.delete c (readers w)\<rparr>)))"
| "ws_exec (WsHangup c) w =
     (case map_of (readers w) c of
        None \<Rightarrow> None
      | Some tx \<Rightarrow> Some (w\<lparr>wmgr := ws_unregister_client c (wmgr w), readers := AList.delete c (readers w)\<rparr>))"
| "ws_exec (WsWrite c ok) w =
     (case map_of (writers w) c of
        None \<Rightarrow> None
      | Some tx \<Rightarrow>
          (case recv_msg tx (wchans w) of
             None \<Rightarrow> None
           | Some (msg, cs') \<Rightarrow>
               (if ok then Some (w\<lparr>wchans := cs', wire := wire w @ [(c, msg)]\<rparr>)
                else Some (w\<lparr>wmgr := ws_unregister_client c (wmgr w), wchans := close_chan tx cs',
                              writers := AList.delete c (writers w)\<rparr>))))"
| "ws_exec (WsWriterEnd c) w =
     (case map_of (writers w) c of
        None \<Rightarrow> None
      | Some tx \<Rightarrow>
          (if queued (wchans w) tx = [] \<and> tx \<notin> snd ` set (ws_clients (wmgr w))
           then Some (w\<lparr>wmgr := ws_unregister_client c (wmgr w), wchans := close_chan tx (wchans w),
                        writers := AList.delete c (writers w)\<rparr>)
           else None))"
| "ws_exec (WsSimTick now dr) w =
     (case ws_simulation_tick now dr (wmgr w) (wchans w) of
        None \<Rightarrow> None
      | Some (m', cs') \<Rightarrow> Some (w\<lparr>wmgr := m', wchans := cs'\<rparr>))"
| "ws_exec (WsHeartbeatTick now) w = Some (w\<lparr>wchans := ws_heartbeat_tick now (wmgr w) (wchans w)\<rparr>)"

text \<open>A sequence of events, run in order; \<open>None\<close> when one of them is not enabled.\<close>

fun ws_run :: "ws_event list \<Rightarrow> ws_world \<Rightarrow> ws_world option" where
  "ws_run [] w = Some w"
| "ws_run (e # es) w = (case ws_exec e w of None \<Rightarrow> None | Some w' \<Rightarrow> ws_run es w')"

definition ws_is_tick :: "ws_event \<Rightarrow> bool" where
  "ws_is_tick e = (case e of WsSimTick _ _ \<Rightarrow> True | WsHeartbeatTick _ \<Rightarrow> True | _ \<Rightarrow> False)"

definition ws_closed_chans :: "server_message chans" where
  "ws_closed_chans = (\<lambda>_. \<lparr>ch_open = False, ch_queue = []\<rparr>)"

inductive ws_reach :: "ws_world \<Rightarrow> bool" where
  start: "ws_reach \<lparr>wmgr = ws_start now rng new_ws_manager, wchans = ws_closed_chans,
                     readers = [], writers = [], wused = [], wire = []\<rparr>"
| step: "ws_reach w \<Longrightarrow> ws_exec e w = Some w' \<Longrightarrow> ws_reach w'"

subsection \<open>Invariants\<close>

text \<open>The registry invariant: keys distinct, every book well formed, every subscription
  under its own symbol, and every subscribed symbol has a book.\<close>

definition ws_inv :: "ws_manager \<Rightarrow> bool" where
  "ws_inv m \<longleftrightarrow>
     distinct (map fst (ws_books m)) \<and> distinct (map fst (ws_clients m)) \<and> distinct (map fst (ws_subs m))
     \<and> (\<forall>(k, ob) \<in> set (ws_books m). book_inv ob)
     \<and> (\<forall>(k, v) \<in> set (ws_subs m). k \<in> fst ` set (ws_books m) \<and> (\<forall>s \<in> set v. sub_sym s = k))"

text \<open>The world invariant: each registered client's channel is the channel of its live
  reader and its live writer, connections own distinct channels, and a live writer's
  channel is open.\<close>

definition ws_world_inv :: "ws_world \<Rightarrow> bool" where
  "ws_world_inv w \<longleftrightarrow>
     ws_inv (wmgr w)
     \<and> distinct (map fst (readers w)) \<and> distinct (map fst (writers w))
     \<and> distinct (map snd (readers w)) \<and> distinct (map snd (writers w))
     \<and> (\<forall>(c, tx) \<in> set (ws_clients (wmgr w)). (c, tx) \<in> set (readers w) \<and> (c, tx) \<in> set (writers w))
     \<and> (\<forall>(c, tx) \<in> set (readers w). tx \<in> set (wused w))
     \<and> (\<forall>(c, tx) \<in> set (writers w). tx \<in> set (wused w) \<and> ch_open (wchans w tx))"

text \<open>The subscriptions recorded under a symbol.\<close>

definition symbol_subs :: "ws_manager \<Rightarrow> string \<Rightarrow> subscription list" where
  "symbol_subs m k = (case map_of (ws_subs m) k of None \<Rightarrow> [] | Some v \<Rightarrow> v)"


text \<open>Example states: a registry with the book \<open>XYZ\<close> and client 1 on channel 0, a
  store in which only channel 0 is open, and the world right after \<^verbatim>\<open>start\<close>.\<close>

definition ws_example :: ws_manager where
  "ws_example = \<lparr>ws_books = [(''XYZ'', spread_example)], ws_subs = [], ws_clients = [(1, 0)]\<rparr>"

definition ws_chans_example :: "server_message chans" where
  "ws_chans_example = open_chan 0 ws_closed_chans"

definition ws_world0 :: ws_world where
  "ws_world0 = \<lparr>wmgr = ws_start 0 (\<lambda>_ _. (0, 0)) new_ws_manager, wchans = ws_closed_chans,
                 readers = [], writers = [], wused = [], wire = []\<rparr>"


text \<open>The world after client 1 connects on channel 0, and after its incoming stream
  then ends.\<close>

definition ws_world1 :: ws_world where
  "ws_world1 = ws_world0\<lparr>wmgr := ws_register_client 1 0 (wmgr ws_world0), wchans := open_chan 0 ws_closed_chans,
                          readers := [(1, 0)], writers := [(1, 0)], wused := [0], wire := [(1, WsHeartBeat 0)]\<rparr>"

definition ws_world2 :: ws_world where
  "ws_world2 = ws_world1\<lparr>wmgr := ws_unregister_client 1 (wmgr ws_world1), readers := []\<rparr>"


text \<open>The messages written to one client's socket, in order.\<close>

definition wire_of :: "ws_world \<Rightarrow> uuid \<Rightarrow> server_message list" where
  "wire_of w c = [m. (c', m) \<leftarrow> wire w, c' = c]"

subsection \<open>The registry operations\<close>

lemma ws_initialize_symbol_fields [simp]:
  "ws_subs (ws_initialize_symbol now rng sy m) = ws_subs m"
  "ws_clients (ws_initialize_symbol now rng sy m) = ws_clients m"
  by (simp_all add: ws_initialize_symbol_def)

lemma ws_register_client_fields [simp]:
  "ws_books (ws_register_client c tx m) = ws_books m"
  "ws_subs (ws_register_client c tx m) = ws_subs m"
  "ws_clients (ws_register_client c tx m) = AList.update c tx (ws_clients m)"
  by (simp_all add: ws_register_client_def)

lemma ws_unregister_client_fields [simp]:
  "ws_books (ws_unregister_client c m) = ws_books m"
  "ws_clients (ws_unregister_client c m) = AList.delete c (ws_clients m)"
  by (simp_all add: ws_unregister_client_def Let_def)

lemma ws_subs_unregister:
  "ws_subs (ws_unregister_client c m) =
     filter (\<lambda>(k, v). v \<noteq> []) (map (\<lambda>(k, v). (k, filter (\<lambda>s. sub_client s \<noteq> c) v)) (ws_subs m))"
  by (simp add: ws_unregister_client_def Let_def)

lemma ws_subscribe_mgr:
  "fst (snd (ws_subscribe now rng c sid sy dt ml m cs)) =
     (if map_of (ws_books m) sy = None then ws_initialize_symbol now rng sy m else m)
       \<lparr>ws_subs := push_entry sy (new_subscription sid sy dt ml c) (ws_subs m)\<rparr>"
  by (simp add: ws_subscribe_def Let_def split: option.split prod.split bool.split)

lemma ws_subscribe_book:
  "map_of (ws_books (fst (snd (ws_subscribe now rng c sid sy dt ml m cs)))) sy =
     Some (case map_of (ws_books m) sy of None \<Rightarrow> initialize_with_sample_data now rng (new_order_book sy) | Some ob \<Rightarrow> ob)"
  by (simp add: ws_subscribe_mgr ws_initialize_symbol_def update_conv' split: option.split)

lemma ws_unsubscribe_fields [simp]:
  "ws_books (snd (ws_unsubscribe c sid m)) = ws_books m"
  "ws_clients (snd (ws_unsubscribe c sid m)) = ws_clients m"
  by (simp_all add: ws_unsubscribe_def split: prod.split)

lemma ws_subscribe_eq:
  "ws_subscribe now rng c sid sy dt ml m cs = (r, m', cs') \<Longrightarrow>
   m' = (if map_of (ws_books m) sy = None then ws_initialize_symbol now rng sy m else m)
          \<lparr>ws_subs := push_entry sy (new_subscription sid sy dt ml c) (ws_subs m)\<rparr>"
  by (metis ws_subscribe_mgr fst_conv snd_conv)

lemma ws_unsubscribe_eq:
  "ws_unsubscribe c sid m = (b, m') \<Longrightarrow> m' = m\<lparr>ws_subs := snd (unsubscribe_entries c sid (ws_subs m))\<rparr>"
  by (simp add: ws_unsubscribe_def split: prod.splits)

lemma ws_handle_message_clients [simp]:
  "ws_clients (fst (ws_handle_message now rng c msg m cs)) = ws_clients m"
  by (auto simp: ws_handle_message_def dest!: ws_subscribe_eq ws_unsubscribe_eq
           split: client_message.split prod.split sum.split)

lemma sender_of_client: "map_of al c = Some tx \<Longrightarrow> tx \<in> snd ` set al"
  by (auto dest: map_of_SomeD intro: image_eqI [of _ snd "(c, tx)"])

lemma send_client_within: "map_of al c = Some tx \<Longrightarrow> sends_within (snd ` set al) cs (snd (send_msg tx msg cs))"
  by (intro sends_within_send sender_of_client)

lemma send_pair_within: "(c, tx) \<in> set al \<Longrightarrow> sends_within (snd ` set al) cs (snd (send_msg tx msg cs))"
  by (rule sends_within_send) force

lemma send_to_client_within:
  "sends_within (snd ` set (ws_clients m)) cs (send_to_client m c msg cs)"
  by (auto simp: send_to_client_def get_client_sender_def intro: send_client_within split: option.split)

text \<open>\<open>subscribe\<close> in closed form: the book always exists after the lazy creation, so the
  outcome depends only on whether the client is registered and its channel is open.\<close>

lemma ws_subscribe_result:
  "ws_subscribe now rng c sid sy dt ml m cs =
    (let ob = (case map_of (ws_books m) sy of None \<Rightarrow> initialize_with_sample_data now rng (new_order_book sy) | Some ob \<Rightarrow> ob);
         m2 = (if map_of (ws_books m) sy = None then ws_initialize_symbol now rng sy m else m)
                \<lparr>ws_subs := push_entry sy (new_subscription sid sy dt ml c) (ws_subs m)\<rparr>
     in case map_of (ws_clients m) c of
          None \<Rightarrow> (Inr (), m2, cs)
        | Some tx \<Rightarrow> (if ch_open (cs tx) then Inr () else Inl ''Failed to send initial snapshot'', m2,
                     snd (send_msg tx (WsMarketData sid sy (ws_view now dt (case ml of Some l \<Rightarrow> l | None \<Rightarrow> 20) ob)
                                         (sequence ob) now) cs)))"
  by (cases "map_of (ws_books m) sy")
     (auto simp: ws_subscribe_def Let_def ws_initialize_symbol_def update_conv' send_msg_def split: option.split)

lemma ws_subscribe_within:
  "ws_subscribe now rng c sid sy dt ml m cs = (r, m', cs') \<Longrightarrow> sends_within (snd ` set (ws_clients m)) cs cs'"
  by (auto simp: ws_subscribe_result Let_def intro: send_client_within split: option.splits)

lemma ws_handle_message_within:
  "ws_handle_message now rng c msg m cs = (m', cs') \<Longrightarrow> sends_within (snd ` set (ws_clients m)) cs cs'"
proof (cases msg)
  case (Subscribe sid sy dt ml)
  obtain r m1 cs1 where eq: "ws_subscribe now rng c sid sy dt ml m cs = (r, m1, cs1)"
    by (rule prod_cases3)
  have "ws_clients m1 = ws_clients m"
    using ws_subscribe_eq [OF eq] by simp
  then have "sends_within (snd ` set (ws_clients m)) cs1 (send_to_client m1 c x cs1)" for x
    using send_to_client_within [of m1 cs1 c x] by simp
  moreover assume "ws_handle_message now rng c msg m cs = (m', cs')"
  ultimately show ?thesis
    using ws_subscribe_within [OF eq] Subscribe eq
    by (cases r) (auto simp: ws_handle_message_def intro: sends_within_trans)
next
  case (Unsubscribe sid)
  assume "ws_handle_message now rng c msg m cs = (m', cs')"
  with Unsubscribe show ?thesis
    by (auto simp: ws_handle_message_def send_to_client_def get_client_sender_def dest!: ws_unsubscribe_eq
             intro: send_client_within split: prod.splits option.splits)
next
  case (Ping t)
  assume "ws_handle_message now rng c msg m cs = (m', cs')"
  with Ping show ?thesis
    by (auto simp: ws_handle_message_def send_to_client_within)
qed

lemma ws_incoming_within:
  "ws_incoming now rng c fr m cs = (b, m', cs') \<Longrightarrow> sends_within (snd ` set (ws_clients m)) cs cs'"
  by (auto simp: ws_incoming_def send_to_client_within split: ws_frame.splits sum.splits
           intro: ws_handle_message_within)

lemma ws_incoming_clients:
  "ws_incoming now rng c fr m cs = (b, m', cs') \<Longrightarrow> ws_clients m' = ws_clients m"
  by (auto simp: ws_incoming_def split: ws_frame.splits sum.splits dest: arg_cong [where f = "\<lambda>p. ws_clients (fst p)"])

lemma ws_deliver_subs_within:
  "sends_within (snd ` set (ws_clients m)) cs (ws_deliver_subs now sy ob subs m cs)"
  unfolding ws_deliver_subs_def
  by (rule sends_within_fold) (auto intro: send_client_within split: option.split)

lemma ws_heartbeat_within:
  "sends_within (snd ` set (ws_clients m)) cs (ws_heartbeat_tick now m cs)"
  unfolding ws_heartbeat_tick_def
  by (rule sends_within_fold) (auto intro: send_pair_within)

subsection \<open>Ticks and the registry invariant\<close>

lemma ws_tick_books_props:
  "ws_tick_books now dr books m cs = Some (books', cs') \<Longrightarrow>
   map fst books' = map fst books
   \<and> ((\<forall>(k, ob) \<in> set books. book_inv ob) \<longrightarrow> (\<forall>(k, ob) \<in> set books'. book_inv ob))
   \<and> sends_within (snd ` set (ws_clients m)) cs cs'"
proof (induction now dr books m cs arbitrary: books' cs' rule: ws_tick_books.induct)
  case (2 now dr sy ob rest m cs)
  then obtain acts ob' ds' rest' cs2 where
    sim: "simulate_activity now (fst (dr sy)) ob (snd (dr sy)) = Some (acts, ob', ds')" and
    rec: "ws_tick_books now dr rest m
            (ws_deliver_subs now sy ob' (case map_of (ws_subs m) sy of None \<Rightarrow> [] | Some v \<Rightarrow> v) m cs)
          = Some (rest', cs2)" and
    res: "books' = (sy, ob') # rest'" "cs' = cs2"
    by (auto simp: Let_def split: option.splits prod.splits)
  have "book_inv ob \<Longrightarrow> book_inv ob'"
    using sim by (auto simp: simulate_activity_def intro: simulate_loop_inv)
  moreover note ih = "2.IH" [OF sim refl refl refl rec]
  moreover have "sends_within (snd ` set (ws_clients m)) cs cs2"
    using sends_within_trans [OF ws_deliver_subs_within] ih by blast
  ultimately show ?case
    using res by auto
qed simp

lemma ws_simulation_tick_props:
  "ws_simulation_tick now dr m cs = Some (m', cs') \<Longrightarrow>
   (ws_inv m \<longrightarrow> ws_inv m') \<and> ws_clients m' = ws_clients m \<and> ws_subs m' = ws_subs m
   \<and> sends_within (snd ` set (ws_clients m)) cs cs'"
proof -
  assume t: "ws_simulation_tick now dr m cs = Some (m', cs')"
  then obtain books where b: "ws_tick_books now dr (ws_books m) m cs = Some (books, cs')"
      "m' = m\<lparr>ws_books := books\<rparr>"
    by (auto simp: ws_simulation_tick_def split: option.splits)
  note p = ws_tick_books_props [OF b(1)]
  have "fst ` set books = fst ` set (ws_books m)"
    using p by (metis list.set_map)
  with p b(2) show ?thesis
    by (auto simp: ws_inv_def)
qed

lemma unsubscribe_entries_keys [simp]: "map fst (snd (unsubscribe_entries c sid L)) = map fst L"
  by (induction c sid L rule: unsubscribe_entries.induct) (auto simp: Let_def split: prod.split)

lemma unsubscribe_entries_sub:
  "(k, v') \<in> set (snd (unsubscribe_entries c sid L)) \<Longrightarrow> \<exists>v. (k, v) \<in> set L \<and> set v' \<subseteq> set v"
  by (induction c sid L rule: unsubscribe_entries.induct) (auto simp: Let_def split: prod.splits if_splits)

lemma ws_initialize_symbol_inv: "ws_inv m \<Longrightarrow> ws_inv (ws_initialize_symbol now rng sy m)"
proof -
  assume inv: "ws_inv m"
  have "book_inv (initialize_with_sample_data now rng (new_order_book sy))"
    using initialize_fresh_orders by blast
  with inv show ?thesis
    by (auto simp: ws_inv_def ws_initialize_symbol_def distinct_update in_set_update dom_update)
qed

lemma ws_register_client_inv: "ws_inv m \<Longrightarrow> ws_inv (ws_register_client c tx m)"
  by (simp add: ws_inv_def distinct_update)

lemma distinct_keys_filter_map:
  "distinct (map fst L) \<Longrightarrow> distinct (map fst (filter P (map (\<lambda>(k, v). (k, f v)) L)))"
  by (induction L) force+

lemma ws_unregister_client_inv: "ws_inv m \<Longrightarrow> ws_inv (ws_unregister_client c m)"
  by (auto simp: ws_inv_def ws_subs_unregister distinct_delete distinct_keys_filter_map)

lemma ws_initialize_symbol_keys:
  "fst ` set (ws_books (ws_initialize_symbol now rng sy m)) = insert sy (fst ` set (ws_books m))"
  by (simp add: ws_initialize_symbol_def dom_update)

lemma ws_subscribe_inv:
  assumes inv: "ws_inv m" and eq: "ws_subscribe now rng c sid sy dt ml m cs = (r, m', cs')"
  shows "ws_inv m'"
proof -
  define m1 where "m1 = (if map_of (ws_books m) sy = None then ws_initialize_symbol now rng sy m else m)"
  let ?s = "new_subscription sid sy dt ml c"
  have m': "m' = m1\<lparr>ws_subs := push_entry sy ?s (ws_subs m1)\<rparr>"
    using ws_subscribe_eq [OF eq] by (simp add: m1_def)
  have i1: "ws_inv m1"
    using inv by (simp add: m1_def ws_initialize_symbol_inv)
  have k1: "fst ` set (ws_books m1) = insert sy (fst ` set (ws_books m))"
  proof (cases "map_of (ws_books m) sy")
    case None
    then show ?thesis by (simp add: m1_def ws_initialize_symbol_keys)
  next
    case (Some ob)
    then have "sy \<in> fst ` set (ws_books m)"
      by (metis fst_conv image_eqI map_of_SomeD)
    with Some show ?thesis
      by (simp add: m1_def insert_absorb)
  qed
  have s1: "ws_subs m1 = ws_subs m"
    by (simp add: m1_def)
  have d: "distinct (map fst (ws_subs m))"
    using inv by (simp add: ws_inv_def)
  have old: "k' \<in> fst ` set (ws_books m) \<and> (\<forall>x \<in> set v'. sub_sym x = k')"
    if "(k', v') \<in> set (ws_subs m)" for k' v'
    using inv that unfolding ws_inv_def by blast
  have ent: "k \<in> fst ` set (ws_books m1) \<and> (\<forall>x \<in> set v. sub_sym x = k)"
    if kv: "(k, v) \<in> set (push_entry sy ?s (ws_subs m))" for k v
    using in_push_entry [OF kv d]
  proof
    assume "k = sy \<and> (\<exists>v0. v = v0 @ [?s] \<and> (v0 = [] \<or> (sy, v0) \<in> set (ws_subs m)))"
    then obtain v0 where "k = sy" "v = v0 @ [?s]" "v0 = [] \<or> (sy, v0) \<in> set (ws_subs m)"
      by blast
    with old [of sy v0] k1 show ?thesis
      by auto
  next
    assume "(k, v) \<in> set (ws_subs m) \<and> k \<noteq> sy"
    with old [of k v] k1 show ?thesis
      by auto
  qed
  have "distinct (map fst (push_entry sy ?s (ws_subs m)))"
    using d by (rule distinct_push_entry)
  with i1 ent show ?thesis
    unfolding m' s1 ws_inv_def by auto
qed

lemma ws_unsubscribe_inv: "ws_inv m \<Longrightarrow> ws_unsubscribe c sid m = (b, m') \<Longrightarrow> ws_inv m'"
  by (fastforce simp: ws_inv_def dest!: ws_unsubscribe_eq unsubscribe_entries_sub)

lemma ws_handle_message_inv:
  "ws_inv m \<Longrightarrow> ws_handle_message now rng c msg m cs = (m', cs') \<Longrightarrow> ws_inv m'"
  by (auto simp: ws_handle_message_def split: client_message.splits prod.splits sum.splits
           intro: ws_subscribe_inv ws_unsubscribe_inv)

lemma ws_incoming_inv:
  "ws_inv m \<Longrightarrow> ws_incoming now rng c fr m cs = (b, m', cs') \<Longrightarrow> ws_inv m'"
  by (auto simp: ws_incoming_def split: ws_frame.splits sum.splits intro: ws_handle_message_inv)

subsection \<open>The world invariant\<close>

lemma in_delete_iff [simp]: "x \<in> set (AList.delete k al) \<longleftrightarrow> x \<in> set al \<and> fst x \<noteq> k"
  by (simp add: delete_filter)

lemma distinct_snd_delete: "distinct (map snd al) \<Longrightarrow> distinct (map snd (AList.delete k al))"
  by (simp add: delete_filter distinct_map_filter)

lemma recv_msg_open: "recv_msg tx cs = Some (msg, cs') \<Longrightarrow> ch_open (cs' t) = ch_open (cs t)"
  by (auto simp: recv_msg_def split: list.splits if_splits)

lemma ws_world_inv_sends:
  "ws_world_inv w \<Longrightarrow> ws_inv m' \<Longrightarrow> ws_clients m' = ws_clients (wmgr w) \<Longrightarrow>
   (\<forall>t. ch_open (cs' t) = ch_open (wchans w t)) \<Longrightarrow> ws_world_inv (w\<lparr>wmgr := m', wchans := cs'\<rparr>)"
  by (simp add: ws_world_inv_def)

lemma ws_world_inv_reader_end:
  "ws_world_inv (w\<lparr>wmgr := m, wchans := cs\<rparr>) \<Longrightarrow>
   ws_world_inv (w\<lparr>wmgr := ws_unregister_client c m, wchans := cs, readers := AList.delete c (readers w)\<rparr>)"
  by (auto simp: ws_world_inv_def ws_unregister_client_inv distinct_delete distinct_snd_delete)

lemma distinct_snd_unique: "distinct (map snd al) \<Longrightarrow> (a, t) \<in> set al \<Longrightarrow> (b, t) \<in> set al \<Longrightarrow> a = b"
  by (induction al) force+

lemma ws_world_inv_writer_end:
  assumes inv: "ws_world_inv w" and wr: "map_of (writers w) c = Some tx"
  shows "ws_world_inv (w\<lparr>wmgr := ws_unregister_client c (wmgr w), wchans := close_chan tx (wchans w),
                         writers := AList.delete c (writers w)\<rparr>)"
proof -
  have ctx: "(c, tx) \<in> set (writers w)"
    using wr by (rule map_of_SomeD)
  have ds: "distinct (map snd (writers w))"
    using inv by (simp add: ws_world_inv_def)
  have other: "ch_open (close_chan tx (wchans w) tx') = ch_open (wchans w tx')"
    if "(c', tx') \<in> set (writers w)" "c' \<noteq> c" for c' tx'
  proof -
    have "tx' \<noteq> tx"
      using distinct_snd_unique [OF ds that(1)] ctx that(2) by blast
    then show ?thesis by (simp add: close_chan_def)
  qed
  have wr': "\<forall>(c', tx') \<in> set (AList.delete c (writers w)).
               tx' \<in> set (wused w) \<and> ch_open (close_chan tx (wchans w) tx')"
  proof (clarify)
    fix c' tx' assume "(c', tx') \<in> set (AList.delete c (writers w))"
    then have m: "(c', tx') \<in> set (writers w)" "c' \<noteq> c" by auto
    then have "tx' \<in> set (wused w) \<and> ch_open (wchans w tx')"
      using inv unfolding ws_world_inv_def by blast
    with other [OF m] show "tx' \<in> set (wused w) \<and> ch_open (close_chan tx (wchans w) tx')"
      by simp
  qed
  have cl: "\<forall>(c', tx') \<in> set (AList.delete c (ws_clients (wmgr w))).
              (c', tx') \<in> set (readers w) \<and> (c', tx') \<in> set (AList.delete c (writers w))"
    using inv unfolding ws_world_inv_def by auto
  show ?thesis
    using inv wr' cl unfolding ws_world_inv_def
    by (simp add: ws_unregister_client_inv distinct_delete distinct_snd_delete)
qed

lemma ws_world_inv_connect:
  assumes inv: "ws_world_inv w" and fresh: "c \<notin> fst ` set (ws_clients (wmgr w))" "c \<notin> fst ` set (readers w)"
    "c \<notin> fst ` set (writers w)" "tx \<notin> set (wused w)"
  shows "ws_world_inv (w\<lparr>wmgr := ws_register_client c tx (wmgr w), wchans := open_chan tx (wchans w),
                         readers := (c, tx) # readers w, writers := (c, tx) # writers w, wused := tx # wused w,
                         wire := wire w @ [(c, WsHeartBeat now)]\<rparr>)"
proof -
  have r: "tx \<notin> snd ` set (readers w)" and wr: "tx \<notin> snd ` set (writers w)"
    using inv fresh(4) unfolding ws_world_inv_def by fastforce+
  show ?thesis
    using inv fresh r wr
    by (auto simp: ws_world_inv_def ws_register_client_inv update_absent open_chan_def)
qed

lemma ws_world_inv_wire [simp]: "ws_world_inv (w\<lparr>wire := x\<rparr>) = ws_world_inv w"
  by (simp add: ws_world_inv_def)

lemma ws_world_inv_within:
  "ws_world_inv w \<Longrightarrow> sends_within S (wchans w) cs' \<Longrightarrow> ws_world_inv (w\<lparr>wchans := cs'\<rparr>)"
  using ws_world_inv_sends [of w "wmgr w" cs'] by (simp add: sends_within_def ws_world_inv_def)

lemma ws_exec_inv:
  assumes inv: "ws_world_inv w" and ex: "ws_exec e w = Some w'"
  shows "ws_world_inv w'"
proof (cases e)
  case (WsConnect now c tx)
  with inv ex show ?thesis
    by (auto split: if_splits intro: ws_world_inv_connect)
next
  case (WsRecv now rng c fr)
  then obtain tx b m' cs' where rd: "map_of (readers w) c = Some tx"
    and inc: "ws_incoming now rng c fr (wmgr w) (wchans w) = (b, m', cs')"
    using ex by (cases "map_of (readers w) c"; cases "ws_incoming now rng c fr (wmgr w) (wchans w)") auto
  have i': "ws_inv m'"
    using inv by (intro ws_incoming_inv [OF _ inc]) (simp add: ws_world_inv_def)
  have o': "\<forall>t. ch_open (cs' t) = ch_open (wchans w t)"
    using ws_incoming_within [OF inc] by (simp add: sends_within_def)
  have base: "ws_world_inv (w\<lparr>wmgr := m', wchans := cs'\<rparr>)"
    by (rule ws_world_inv_sends [OF inv i' ws_incoming_clients [OF inc] o'])
  show ?thesis
  proof (cases b)
    case True
    with ex WsRecv rd inc base show ?thesis by simp
  next
    case False
    with ex WsRecv rd inc have "w' = w\<lparr>wmgr := ws_unregister_client c m', wchans := cs',
                                         readers := AList.delete c (readers w)\<rparr>"
      by simp
    with ws_world_inv_reader_end [where w = w and m = m' and cs = cs' and c = c] base show ?thesis
      by simp
  qed
next
  case (WsHangup c)
  with inv ex ws_world_inv_reader_end [where w = w and m = "wmgr w" and cs = "wchans w" and c = c] show ?thesis
    by (auto split: option.splits)
next
  case (WsWrite c ok)
  then obtain tx msg cs' where wr: "map_of (writers w) c = Some tx"
    and rv: "recv_msg tx (wchans w) = Some (msg, cs')"
    using ex by (cases "map_of (writers w) c"; cases "recv_msg (the (map_of (writers w) c)) (wchans w)") auto
  have base: "ws_world_inv (w\<lparr>wchans := cs'\<rparr>)"
  proof -
    have "ws_inv (wmgr w)"
      using inv by (simp add: ws_world_inv_def)
    with ws_world_inv_sends [OF inv, of "wmgr w" cs'] recv_msg_open [OF rv] show ?thesis
      by simp
  qed
  show ?thesis
  proof (cases ok)
    case True
    with ex WsWrite wr rv have "w' = w\<lparr>wchans := cs'\<rparr>\<lparr>wire := wire w @ [(c, msg)]\<rparr>"
      by simp
    with base show ?thesis by simp
  next
    case False
    with ex WsWrite wr rv have "w' = w\<lparr>wmgr := ws_unregister_client c (wmgr w), wchans := close_chan tx cs',
                                          writers := AList.delete c (writers w)\<rparr>"
      by simp
    with ws_world_inv_writer_end [where w = "w\<lparr>wchans := cs'\<rparr>" and c = c and tx = tx] base wr show ?thesis
      by simp
  qed
next
  case (WsWriterEnd c)
  with inv ex ws_world_inv_writer_end [OF inv] show ?thesis
    by (auto split: option.splits if_splits)
next
  case (WsSimTick now dr)
  then obtain m' cs' where t: "ws_simulation_tick now dr (wmgr w) (wchans w) = Some (m', cs')"
    and w': "w' = w\<lparr>wmgr := m', wchans := cs'\<rparr>"
    using ex by (auto split: option.splits)
  note p = ws_simulation_tick_props [OF t]
  have i': "ws_inv m'"
    using inv p by (simp add: ws_world_inv_def)
  have o': "\<forall>t. ch_open (cs' t) = ch_open (wchans w t)"
    using p by (simp add: sends_within_def)
  show ?thesis
    using ws_world_inv_sends [OF inv i' _ o'] p w' by simp
next
  case (WsHeartbeatTick now)
  with inv ex ws_world_inv_within [OF inv ws_heartbeat_within] show ?thesis
    by auto
qed

lemma ws_start_props: "ws_inv (ws_start now rng new_ws_manager) \<and> ws_clients (ws_start now rng new_ws_manager) = []"
proof -
  have "ws_inv m \<Longrightarrow> ws_inv (fold (\<lambda>sy m. ws_initialize_symbol now (rng sy) sy m) xs m)
        \<and> ws_clients (fold (\<lambda>sy m. ws_initialize_symbol now (rng sy) sy m) xs m) = ws_clients m" for xs m
    by (induction xs arbitrary: m) (simp_all add: ws_initialize_symbol_inv)
  moreover have "ws_inv new_ws_manager"
    by (simp add: new_ws_manager_def ws_inv_def)
  ultimately have "ws_inv (ws_start now rng new_ws_manager)
      \<and> ws_clients (ws_start now rng new_ws_manager) = ws_clients new_ws_manager"
    unfolding ws_start_def by blast
  then show ?thesis
    by (simp add: new_ws_manager_def)
qed

lemma ws_start_clients [simp]: "ws_clients (ws_start now rng new_ws_manager) = []"
  using ws_start_props by blast

lemma ws_reach_world_inv: "ws_reach w \<Longrightarrow> ws_world_inv w"
proof (induction rule: ws_reach.induct)
  case (start now rng)
  then show ?case
    using ws_start_props [of now rng] by (simp add: ws_world_inv_def ws_closed_chans_def)
next
  case (step w e w')
  then show ?case by (blast intro: ws_exec_inv)
qed

lemma ws_subscribe_open_ok:
  "(\<forall>(c', tx) \<in> set (ws_clients m). ch_open (cs tx)) \<Longrightarrow> fst (ws_subscribe now rng c sid sy dt ml m cs) = Inr ()"
  by (auto simp: ws_subscribe_result Let_def dest: map_of_SomeD split: option.split)

lemma ws_tick_exec:
  "ws_is_tick e \<Longrightarrow> ws_exec e w = Some w' \<Longrightarrow>
   readers w' = readers w \<and> ws_clients (wmgr w') = ws_clients (wmgr w)
   \<and> sends_within (snd ` set (ws_clients (wmgr w))) (wchans w) (wchans w')"
  by (cases e) (auto simp: ws_is_tick_def ws_heartbeat_within split: option.splits dest: ws_simulation_tick_props)

lemma ws_ticks_frame:
  "ws_world_inv w \<Longrightarrow> list_all ws_is_tick es \<Longrightarrow> ws_run es w = Some w' \<Longrightarrow>
   readers w' = readers w \<and> sends_within (snd ` set (readers w)) (wchans w) (wchans w')"
proof (induction es arbitrary: w)
  case (Cons e es)
  then obtain w1 where ex: "ws_exec e w = Some w1" and run: "ws_run es w1 = Some w'"
    by (auto split: option.splits)
  have t: "ws_is_tick e" and ts: "list_all ws_is_tick es"
    using Cons.prems by simp_all
  note f = ws_tick_exec [OF t ex]
  have sub: "snd ` set (ws_clients (wmgr w)) \<subseteq> snd ` set (readers w)"
    using Cons.prems(1) unfolding ws_world_inv_def by fastforce
  have "sends_within (snd ` set (readers w)) (wchans w) (wchans w1)"
    using f sub unfolding sends_within_def by blast
  moreover note ih = Cons.IH [OF ws_exec_inv [OF Cons.prems(1) ex] ts run]
  ultimately show ?case
    using f by (auto intro: sends_within_trans)
qed simp

subsection \<open>Unsubscription and unregistration\<close>

lemma map_of_prune:
  "distinct (map fst L) \<Longrightarrow>
   map_of (filter (\<lambda>(k, v). v \<noteq> []) (map (\<lambda>(k, v). (k, g v)) L)) k =
     (case map_of L k of None \<Rightarrow> None | Some v \<Rightarrow> if g v = [] then None else Some (g v))"
  by (induction L) (auto simp: map_of_eq_None_iff split: option.split intro: rev_image_eqI)

lemma unsubscribe_entries_none:
  "\<not> list_ex (\<lambda>(k, v). list_ex (ws_sub_match c sid) v) L \<Longrightarrow> unsubscribe_entries c sid L = (False, L)"
proof (induction L)
  case (Cons kv L)
  then show ?case
    by (cases kv) (auto simp: Let_def list_ex_iff filter_id_conv)
qed simp

lemma unsubscribe_entries_first:
  "\<not> list_ex (\<lambda>(k', v'). list_ex (ws_sub_match c sid) v') pre \<Longrightarrow> list_ex (ws_sub_match c sid) v \<Longrightarrow>
   unsubscribe_entries c sid (pre @ (k, v) # post) = (True, pre @ (k, filter (\<lambda>s. \<not> ws_sub_match c sid s) v) # post)"
proof (induction pre)
  case Nil
  then obtain x where "x \<in> set v" "ws_sub_match c sid x"
    by (auto simp: list_ex_iff)
  then have "length (filter (\<lambda>s. \<not> ws_sub_match c sid s) v) < length v"
    by (intro length_filter_less) auto
  then show ?case by (simp add: Let_def)
next
  case (Cons kv pre)
  then show ?case
    by (cases kv) (auto simp: Let_def list_ex_iff filter_id_conv)
qed

lemma ws_example_facts [simp]:
  "ws_clients ws_example = [(1, 0)]" "ws_books ws_example = [(''XYZ'', spread_example)]"
  "ws_subs ws_example = []" "ch_open (ws_chans_example 0)" "queued ws_chans_example 0 = []"
  by (simp_all add: ws_example_def ws_chans_example_def open_chan_def queued_def)

lemma ws_reach_world1: "ws_reach ws_world1"
proof -
  have "ws_exec (WsConnect 0 1 0) ws_world0 = Some ws_world1"
    by (simp add: ws_world0_def ws_world1_def)
  then show ?thesis
    by (rule ws_reach.step [OF ws_reach.start [of 0 "\<lambda>_ _. (0, 0)", folded ws_world0_def]])
qed

lemma ws_reach_world2: "ws_reach ws_world2"
proof -
  have "ws_exec (WsHangup 1) ws_world1 = Some ws_world2"
    by (simp add: ws_world1_def ws_world2_def)
  then show ?thesis
    by (rule ws_reach.step [OF ws_reach_world1])
qed

subsection \<open>The socket of each client\<close>

lemma wire_of_snoc: "wire_of (w\<lparr>wire := wire w @ [(c, m)]\<rparr>) c' = wire_of w c' @ (if c = c' then [m] else [])"
  by (simp add: wire_of_def)

lemma ws_exec_wire:
  "ws_exec e w = Some w' \<Longrightarrow>
   (\<exists>now c tx. e = WsConnect now c tx \<and> wire w' = wire w @ [(c, WsHeartBeat now)]
       \<and> set (writers w') = insert (c, tx) (set (writers w)))
   \<or> (set (writers w') \<subseteq> set (writers w)
       \<and> (wire w' = wire w \<or> (\<exists>c m. wire w' = wire w @ [(c, m)] \<and> c \<in> fst ` set (writers w))))"
proof (cases e)
  case (WsWrite c ok)
  assume ex: "ws_exec e w = Some w'"
  with WsWrite obtain tx msg cs' where wr: "map_of (writers w) c = Some tx"
    and rv: "recv_msg tx (wchans w) = Some (msg, cs')"
    by (auto split: option.splits)
  have "c \<in> fst ` set (writers w)"
    using wr by (metis fst_conv image_eqI map_of_SomeD)
  with ex WsWrite wr rv show ?thesis
    by (cases ok) (force simp: delete_filter)+
qed (auto simp: delete_filter split: if_splits option.splits prod.splits bool.splits)

lemma ws_reach_welcome:
  "ws_reach w \<Longrightarrow>
   (\<forall>c. wire_of w c = [] \<or> (\<exists>t. hd (wire_of w c) = WsHeartBeat t)) \<and> (\<forall>c \<in> fst ` set (writers w). wire_of w c \<noteq> [])"
proof (induction rule: ws_reach.induct)
  case (start now rng)
  then show ?case by (simp add: wire_of_def)
next
  case (step w e w')
  from ws_exec_wire [OF step.hyps(2)] show ?case
  proof (elim disjE exE conjE)
    fix now c tx
    assume wire: "wire w' = wire w @ [(c, WsHeartBeat now)]"
      and wr: "set (writers w') = insert (c, tx) (set (writers w))"
    have wo: "wire_of w' c' = wire_of w c' @ (if c = c' then [WsHeartBeat now] else [])" for c'
      using wire_of_snoc [of w c "WsHeartBeat now" c'] wire by (simp add: wire_of_def)
    show ?thesis
      using step.IH wr by (auto simp: wo hd_append)
  next
    assume "set (writers w') \<subseteq> set (writers w)" "wire w' = wire w"
    with step.IH show ?thesis by (auto simp: wire_of_def)
  next
    fix c m
    assume sub: "set (writers w') \<subseteq> set (writers w)" and wire: "wire w' = wire w @ [(c, m)]"
      and c: "c \<in> fst ` set (writers w)"
    have wo: "wire_of w' c' = wire_of w c' @ (if c = c' then [m] else [])" for c'
      using wire_of_snoc [of w c m c'] wire by (simp add: wire_of_def)
    have "wire_of w c \<noteq> []"
      using step.IH c by blast
    with step.IH sub show ?thesis
      by (auto simp: wo hd_append)
  qed
qed

subsection \<open>Properties of the WebSocket server\<close>

text \<open>
  C32 (live clients): in every reachable world the registry invariant holds, and every
  registered client has a live reader and a live writer on its channel, and that channel is
  open.
\<close>

theorem ws_reach_registered_live:
  "ws_reach w \<Longrightarrow>
   ws_inv (wmgr w) \<and> (\<forall>(c, tx) \<in> set (ws_clients (wmgr w)).
      (c, tx) \<in> set (readers w) \<and> (c, tx) \<in> set (writers w) \<and> ch_open (wchans w tx))"
  by (drule ws_reach_world_inv) (fastforce simp: ws_world_inv_def)

theorem ws_reach_registered_live_witness:
  "ws_inv (wmgr ws_world1) \<and> (1, 0) \<in> set (readers ws_world1) \<and> (1, 0) \<in> set (writers ws_world1)
   \<and> ch_open (wchans ws_world1 0)"
proof -
  have "(1, 0) \<in> set (ws_clients (wmgr ws_world1))"
    by (simp add: ws_world1_def ws_world0_def)
  with ws_reach_registered_live [OF ws_reach_world1] show ?thesis
    by auto
qed

text \<open>
  C33 (the snapshot send never fails): in every reachable world \<^verbatim>\<open>subscribe\<close>
  returns \<open>Ok\<close>, whatever the client; its \<open>Err("Failed to send initial snapshot")\<close>
  branch, and with it the 500 answer of \<^verbatim>\<open>handle_message\<close>, cannot happen, because
  a client is unregistered before its receiver is dropped.
\<close>

theorem ws_subscribe_never_fails:
  "ws_reach w \<Longrightarrow> fst (ws_subscribe now rng c sid sy dt ml (wmgr w) (wchans w)) = Inr ()"
  by (drule ws_reach_world_inv) (auto simp: ws_world_inv_def intro!: ws_subscribe_open_ok)

theorem ws_subscribe_never_fails_witness:
  "fst (ws_subscribe 0 (\<lambda>_. (0, 0)) 1 ''s1'' ''XYZ'' MBP None (wmgr ws_world1) (wchans ws_world1)) = Inr ()"
  by (rule ws_subscribe_never_fails [OF ws_reach_world1])

text \<open>
  C34 (no delivery after disconnection): once no live reader owns a channel (the client's
  incoming loop ended and \<^verbatim>\<open>unregister_client\<close> ran), no sequence of simulation and
  heartbeat ticks changes that channel.
\<close>

theorem ws_disconnected_silent:
  "ws_reach w \<Longrightarrow> tx \<notin> snd ` set (readers w) \<Longrightarrow> list_all ws_is_tick es \<Longrightarrow>
   ws_run es w = Some w' \<Longrightarrow> wchans w' tx = wchans w tx"
  by (drule ws_reach_world_inv) (auto simp: sends_within_def dest: ws_ticks_frame)

theorem ws_disconnected_silent_witness:
  "case ws_run [WsHeartbeatTick 5, WsHeartbeatTick 6] ws_world2 of
     None \<Rightarrow> False
   | Some w' \<Rightarrow> wchans w' 0 = wchans ws_world2 0"
proof -
  let ?w3 = "ws_world2\<lparr>wchans := ws_heartbeat_tick 5 (wmgr ws_world2) (wchans ws_world2)\<rparr>"
  let ?w4 = "?w3\<lparr>wchans := ws_heartbeat_tick 6 (wmgr ?w3) (wchans ?w3)\<rparr>"
  have run: "ws_run [WsHeartbeatTick 5, WsHeartbeatTick 6] ws_world2 = Some ?w4"
    by simp
  have "0 \<notin> snd ` set (readers ws_world2)"
    by (simp add: ws_world2_def)
  from ws_disconnected_silent [OF ws_reach_world2 this _ run] run show ?thesis
    by (simp add: ws_is_tick_def)
qed

text \<open>
  C35 (subscription acknowledgement order): a \<open>Subscribe\<close> request from a registered
  client with an open channel appends exactly two messages to that channel, the snapshot of
  the symbol's book (created if new) and then \<open>Subscribed\<close>; the subscription is
  appended under its symbol; no other channel changes.
\<close>

theorem ws_subscribe_acked:
  assumes cl: "map_of (ws_clients m) c = Some tx" and op: "ch_open (cs tx)"
    and hm: "ws_handle_message now rng c (Subscribe sid sy dt ml) m cs = (m', cs')"
  shows "(\<exists>ob. map_of (ws_books m') sy = Some ob
            \<and> queued cs' tx = queued cs tx @ [WsMarketData sid sy (ws_view now dt (case ml of Some l \<Rightarrow> l | None \<Rightarrow> 20) ob)
                                                   (sequence ob) now, Subscribed sid sy dt])
         \<and> symbol_subs m' sy = symbol_subs m sy @ [new_subscription sid sy dt ml c]
         \<and> (\<forall>t. t \<noteq> tx \<longrightarrow> cs' t = cs t)"
proof -
  obtain r m2 cs1 where eq: "ws_subscribe now rng c sid sy dt ml m cs = (r, m2, cs1)"
    by (rule prod_cases3)
  let ?ob = "case map_of (ws_books m) sy of None \<Rightarrow> initialize_with_sample_data now rng (new_order_book sy) | Some ob \<Rightarrow> ob"
  let ?snap = "WsMarketData sid sy (ws_view now dt (case ml of Some l \<Rightarrow> l | None \<Rightarrow> 20) ?ob) (sequence ?ob) now"
  have r: "r = Inr ()" and cs1: "cs1 = snd (send_msg tx ?snap cs)"
    using eq cl op by (simp_all add: ws_subscribe_result Let_def)
  have m2: "ws_clients m2 = ws_clients m"
    using ws_subscribe_eq [OF eq] by simp
  have res: "m' = m2" "cs' = send_to_client m2 c (Subscribed sid sy dt) cs1"
    using hm eq r by (auto simp: ws_handle_message_def)
  have book: "map_of (ws_books m2) sy = Some ?ob"
    using ws_subscribe_book [of now rng c sid sy dt ml m cs] eq by simp
  have q: "queued cs' tx = queued cs tx @ [?snap, Subscribed sid sy dt]"
    using op by (simp add: res cs1 send_to_client_def get_client_sender_def m2 cl queued_def)
  have subs: "symbol_subs m' sy = symbol_subs m sy @ [new_subscription sid sy dt ml c]"
    using ws_subscribe_eq [OF eq] by (simp add: res symbol_subs_def map_of_push_entry split: option.split)
  have "cs' t = cs t" if "t \<noteq> tx" for t
    using that by (simp add: res cs1 send_to_client_def get_client_sender_def m2 cl send_msg_other)
  with book q subs res show ?thesis
    by auto
qed

theorem ws_subscribe_acked_witness:
  "case ws_handle_message 0 (\<lambda>_. (0, 0)) 1 (Subscribe ''s1'' ''XYZ'' MBP (Some 5)) ws_example ws_chans_example of
     (m', cs') \<Rightarrow>
       (\<exists>ob. map_of (ws_books m') ''XYZ'' = Some ob
             \<and> queued cs' 0 = [WsMarketData ''s1'' ''XYZ'' (ws_view 0 MBP 5 ob) (sequence ob) 0, Subscribed ''s1'' ''XYZ'' MBP])
       \<and> symbol_subs m' ''XYZ'' = [new_subscription ''s1'' ''XYZ'' MBP (Some 5) 1]"
proof -
  obtain m' cs' where eq: "ws_handle_message 0 (\<lambda>_. (0, 0)) 1 (Subscribe ''s1'' ''XYZ'' MBP (Some 5)) ws_example ws_chans_example
                            = (m', cs')"
    by (rule prod.exhaust)
  have "map_of (ws_clients ws_example) 1 = Some 0"
    by simp
  from ws_subscribe_acked [OF this _ eq] eq show ?thesis
    by (simp add: symbol_subs_def)
qed

text \<open>
  C36 (\<^verbatim>\<open>unsubscribe\<close> stops at the first symbol): when the first symbol's list
  holding a match of client and stream id is \<open>v\<close>, \<^verbatim>\<open>unsubscribe\<close> returns
  \<open>true\<close> and removes the matches from that list only: a later symbol's matches stay, and
  the list stays even when it becomes empty.
\<close>

theorem ws_unsubscribe_first_entry:
  "ws_subs m = pre @ (k, v) # post \<Longrightarrow>
   \<not> list_ex (\<lambda>(k', v'). list_ex (ws_sub_match c sid) v') pre \<Longrightarrow> list_ex (ws_sub_match c sid) v \<Longrightarrow>
   ws_unsubscribe c sid m = (True, m\<lparr>ws_subs := pre @ (k, filter (\<lambda>s. \<not> ws_sub_match c sid s) v) # post\<rparr>)"
  by (simp add: ws_unsubscribe_def unsubscribe_entries_first)

theorem ws_unsubscribe_first_entry_witness:
  "ws_unsubscribe 1 ''x''
     (ws_example\<lparr>ws_subs := [(''A'', [new_subscription ''x'' ''A'' MBP None 1]),
                              (''B'', [new_subscription ''x'' ''B'' MBP None 1])]\<rparr>)
   = (True, ws_example\<lparr>ws_subs := [(''A'', []), (''B'', [new_subscription ''x'' ''B'' MBP None 1])]\<rparr>)"
  using ws_unsubscribe_first_entry
    [where m = "ws_example\<lparr>ws_subs := [(''A'', [new_subscription ''x'' ''A'' MBP None 1]),
                                        (''B'', [new_subscription ''x'' ''B'' MBP None 1])]\<rparr>"
       and pre = "[]" and k = "''A''" and v = "[new_subscription ''x'' ''A'' MBP None 1]"
       and post = "[(''B'', [new_subscription ''x'' ''B'' MBP None 1])]" and c = 1 and sid = "''x''"]
  by (simp add: ws_sub_match_def)

text \<open>
  C37 (unregistration cascades): \<^verbatim>\<open>unregister_client\<close> leaves under every symbol
  exactly the other clients' subscriptions, keeps no empty list, and removes exactly the
  client's sender.
\<close>

theorem ws_unregister_cascade:
  "distinct (map fst (ws_subs m)) \<Longrightarrow>
   symbol_subs (ws_unregister_client c m) k = filter (\<lambda>s. sub_client s \<noteq> c) (symbol_subs m k)
   \<and> list_all (\<lambda>(k, v). v \<noteq> []) (ws_subs (ws_unregister_client c m))
   \<and> map_of (ws_clients (ws_unregister_client c m)) = (map_of (ws_clients m))(c := None)"
  by (auto simp: symbol_subs_def ws_subs_unregister map_of_prune delete_conv' list_all_iff split: option.split)

theorem ws_unregister_cascade_witness:
  "symbol_subs (ws_unregister_client 1
      (ws_example\<lparr>ws_subs := [(''A'', [new_subscription ''x'' ''A'' MBP None 1]),
                               (''B'', [new_subscription ''x'' ''B'' MBP None 1, new_subscription ''y'' ''B'' MBP None 2])]\<rparr>))
     ''B'' = [new_subscription ''y'' ''B'' MBP None 2]"
  using ws_unregister_cascade
    [where m = "ws_example\<lparr>ws_subs := [(''A'', [new_subscription ''x'' ''A'' MBP None 1]),
                           (''B'', [new_subscription ''x'' ''B'' MBP None 1, new_subscription ''y'' ''B'' MBP None 2])]\<rparr>"
       and c = 1 and k = "''B''"]
  by (simp add: symbol_subs_def)


text \<open>
  C22 (welcome first): whatever the interleaving of connections, requests, ticks and
  socket writes, the first message written to a client's socket is the welcome heartbeat of
  \<^verbatim>\<open>handle_connection\<close>.
\<close>

theorem ws_welcome_first:
  "ws_reach w \<Longrightarrow> wire_of w c \<noteq> [] \<Longrightarrow> \<exists>t. hd (wire_of w c) = WsHeartBeat t"
  using ws_reach_welcome by blast

theorem ws_welcome_first_witness: "\<exists>t. hd (wire_of ws_world1 1) = WsHeartBeat t"
proof -
  have "wire_of ws_world1 1 \<noteq> []"
    by (simp add: wire_of_def ws_world1_def)
  then show ?thesis
    by (rule ws_welcome_first [OF ws_reach_world1])
qed

end
