(* ===== verification/OrderedFloat.thy ===== *)
theory OrderedFloat
  imports Prelude "HOL-Library.Product_Lexorder"
begin

text \<open>
  The key type of the price ladders (\<^verbatim>\<open>OrderedFloat\<close> in
  \<^verbatim>\<open>src/backend-sse/src/order_book.rs\<close>): a wrapper of \<open>f64\<close> whose \<^verbatim>\<open>Ord\<close>
  instance is \<^verbatim>\<open>partial_cmp\<close> with an incomparable pair mapped to \<open>Equal\<close>. An
  \<open>f64\<close> is abstracted to a real, the two infinities or NaN (rounding is not needed: the
  keys are compared, never computed). The theory shows that the instance is a lawful total
  order exactly away from NaN, where it coincides with the order of the reals that
  \<^verbatim>\<open>Ladder\<close> uses as keys, and gives the non-NaN keys a \<open>linorder\<close> instance.
\<close>

datatype f64 = Fin real | PosInf | NegInf | NaN

text \<open>\<^verbatim>\<open>std::cmp::Ordering\<close>.\<close>

datatype rs_ordering = Less | Equal | Greater

text \<open>\<^verbatim>\<open>f64::partial_cmp\<close>: \<open>None\<close> when either side is NaN; the infinities bound
  the finite values.\<close>

fun f64_partial_cmp :: "f64 \<Rightarrow> f64 \<Rightarrow> rs_ordering option" where
  "f64_partial_cmp NaN _ = None"
| "f64_partial_cmp _ NaN = None"
| "f64_partial_cmp (Fin a) (Fin b) = Some (if a < b then Less else if a = b then Equal else Greater)"
| "f64_partial_cmp NegInf NegInf = Some Equal"
| "f64_partial_cmp NegInf _ = Some Less"
| "f64_partial_cmp _ NegInf = Some Greater"
| "f64_partial_cmp PosInf PosInf = Some Equal"
| "f64_partial_cmp PosInf _ = Some Greater"
| "f64_partial_cmp _ PosInf = Some Less"

datatype ordered_float_key = OrderedFloat f64

text \<open>\<^verbatim>\<open>impl Ord for OrderedFloat\<close>.\<close>

fun ordered_float_cmp :: "ordered_float_key \<Rightarrow> ordered_float_key \<Rightarrow> rs_ordering" where
  "ordered_float_cmp (OrderedFloat a) (OrderedFloat b) =
     (case f64_partial_cmp a b of Some r \<Rightarrow> r | None \<Rightarrow> Equal)"

text \<open>The derived \<^verbatim>\<open>PartialEq\<close>, which compares the \<open>f64\<close> fields with \<open>==\<close>
  (false at NaN), declared an equivalence by \<^verbatim>\<open>impl Eq\<close>.\<close>

fun ordered_float_eq :: "ordered_float_key \<Rightarrow> ordered_float_key \<Rightarrow> bool" where
  "ordered_float_eq (OrderedFloat a) (OrderedFloat b) = (f64_partial_cmp a b = Some Equal)"

definition ordered_float_from :: "f64 \<Rightarrow> ordered_float_key" where
  "ordered_float_from f = OrderedFloat f"

definition rev_ordering :: "rs_ordering \<Rightarrow> rs_ordering" where
  "rev_ordering r = (case r of Less \<Rightarrow> Greater | Equal \<Rightarrow> Equal | Greater \<Rightarrow> Less)"

text \<open>A non-NaN \<open>f64\<close> as a point of the extended line, lexicographically: the rank
  (below, finite, above) and the finite value.\<close>

definition f64_key :: "f64 \<Rightarrow> int \<times> real" where
  "f64_key f = (case f of NegInf \<Rightarrow> (0, 0) | Fin a \<Rightarrow> (1, a) | PosInf \<Rightarrow> (2, 0) | NaN \<Rightarrow> (3, 0))"

definition cmp_of :: "'a::linorder \<Rightarrow> 'a \<Rightarrow> rs_ordering" where
  "cmp_of a b = (if a < b then Less else if a = b then Equal else Greater)"

lemma f64_partial_cmp_key:
  "a \<noteq> NaN \<Longrightarrow> b \<noteq> NaN \<Longrightarrow> f64_partial_cmp a b = Some (cmp_of (f64_key a) (f64_key b))"
  by (cases a; cases b) (auto simp: f64_key_def cmp_of_def)

lemma f64_key_inj: "a \<noteq> NaN \<Longrightarrow> b \<noteq> NaN \<Longrightarrow> f64_key a = f64_key b \<longleftrightarrow> a = b"
  by (cases a; cases b) (auto simp: f64_key_def)

lemma ordered_float_cmp_key:
  "x = OrderedFloat a \<Longrightarrow> y = OrderedFloat b \<Longrightarrow> a \<noteq> NaN \<Longrightarrow> b \<noteq> NaN \<Longrightarrow>
   ordered_float_cmp x y = cmp_of (f64_key a) (f64_key b)"
  by (simp add: f64_partial_cmp_key)

lemma cmp_of_laws:
  "(cmp_of a b = Equal \<longleftrightarrow> a = b) \<and> cmp_of b a = rev_ordering (cmp_of a b)
   \<and> (cmp_of a b \<noteq> Greater \<longleftrightarrow> a \<le> b) \<and> (cmp_of a b = Less \<longleftrightarrow> a < b)"
  by (auto simp: cmp_of_def rev_ordering_def)

lemma not_NaN_key: "x \<noteq> OrderedFloat NaN \<Longrightarrow> \<exists>a. x = OrderedFloat a \<and> a \<noteq> NaN"
  by (cases x) auto

lemma ordered_float_cmp_NaN [simp]: "ordered_float_cmp (OrderedFloat NaN) x = Equal"
  by (cases x) simp

lemma ordered_float_finite:
  "ordered_float_cmp (OrderedFloat (Fin a)) (OrderedFloat (Fin b)) = cmp_of a b"
  by (simp add: cmp_of_def)

subsection \<open>The order of the ladder keys\<close>

text \<open>
  C23 (type: \<^verbatim>\<open>OrderedFloat\<close> is a lawful \<^verbatim>\<open>Ord\<close> exactly without NaN): on keys
  that are not NaN, \<^verbatim>\<open>cmp\<close> answers \<open>Equal\<close> only for equal keys, is antisymmetric
  and transitive, and the derived \<open>==\<close> is equality; on finite keys it is the order of the
  reals (the ladder model's keys), below \<open>+inf\<close> and above \<open>-inf\<close>; NaN compares \<open>Equal\<close> to every key
  and is not \<open>==\<close> to itself, so with NaN the declared \<^verbatim>\<open>Eq\<close> and \<^verbatim>\<open>Ord\<close>
  laws fail.
\<close>

theorem ordered_float_cmp_lawful:
  assumes "x \<noteq> OrderedFloat NaN" "y \<noteq> OrderedFloat NaN" "z \<noteq> OrderedFloat NaN"
  shows "(ordered_float_cmp x y = Equal \<longleftrightarrow> x = y)
         \<and> ordered_float_cmp y x = rev_ordering (ordered_float_cmp x y)
         \<and> (ordered_float_cmp x y \<noteq> Greater \<and> ordered_float_cmp y z \<noteq> Greater \<longrightarrow> ordered_float_cmp x z \<noteq> Greater)
         \<and> (ordered_float_eq x y \<longleftrightarrow> x = y)
         \<and> ordered_float_cmp (OrderedFloat (Fin r)) (OrderedFloat (Fin r')) = cmp_of r r'
         \<and> ordered_float_cmp (OrderedFloat NegInf) (OrderedFloat (Fin r)) = Less
         \<and> ordered_float_cmp (OrderedFloat (Fin r)) (OrderedFloat PosInf) = Less
         \<and> ordered_float_cmp (OrderedFloat NaN) x = Equal \<and> \<not> ordered_float_eq (OrderedFloat NaN) (OrderedFloat NaN)"
proof -
  obtain a b c where k: "x = OrderedFloat a" "y = OrderedFloat b" "z = OrderedFloat c"
    and n: "a \<noteq> NaN" "b \<noteq> NaN" "c \<noteq> NaN"
    using assms by (meson not_NaN_key)
  have inj: "f64_key a = f64_key b \<longleftrightarrow> x = y"
    using f64_key_inj [OF n(1,2)] k by simp
  have "ordered_float_eq x y \<longleftrightarrow> cmp_of (f64_key a) (f64_key b) = Equal"
    using k n by (simp add: f64_partial_cmp_key)
  moreover have "ordered_float_cmp (OrderedFloat (Fin r)) (OrderedFloat (Fin r')) = cmp_of r r'
      \<and> ordered_float_cmp (OrderedFloat NegInf) (OrderedFloat (Fin r)) = Less
      \<and> ordered_float_cmp (OrderedFloat (Fin r)) (OrderedFloat PosInf) = Less"
    by (simp add: cmp_of_def)
  ultimately show ?thesis
    using k n inj cmp_of_laws [of "f64_key a" "f64_key b"] cmp_of_laws [of "f64_key b" "f64_key c"]
      cmp_of_laws [of "f64_key a" "f64_key c"]
    by (simp only:) (simp add: f64_partial_cmp_key, blast intro: order_trans)
qed

theorem ordered_float_cmp_lawful_witness:
  "ordered_float_cmp (OrderedFloat (Fin 1)) (OrderedFloat PosInf) = Less
   \<and> ordered_float_cmp (OrderedFloat PosInf) (OrderedFloat (Fin 1)) = Greater
   \<and> ordered_float_cmp (OrderedFloat NaN) (OrderedFloat (Fin 1)) = Equal"
  using ordered_float_cmp_lawful [of "OrderedFloat (Fin 1)" "OrderedFloat PosInf" "OrderedFloat NegInf"]
  by (simp add: rev_ordering_def)

end
