(* ===== verification/PriceKey.thy ===== *)
theory PriceKey
  imports OrderedFloat
begin

text \<open>
  The ladder keys that \<^verbatim>\<open>OrderedFloat\<close> orders lawfully: the keys without NaN, as a
  type with the library's \<open>linorder\<close> instance given by \<^verbatim>\<open>Ord::cmp\<close>. On finite
  keys the instance is the order of the reals, the key type \<^verbatim>\<open>Ladder\<close> works with.
\<close>

typedef price_key = "{k :: ordered_float_key. k \<noteq> OrderedFloat NaN}"
  by (rule exI [of _ "OrderedFloat (Fin 0)"]) simp

instantiation price_key :: linorder
begin

definition less_eq_price_key :: "price_key \<Rightarrow> price_key \<Rightarrow> bool" where
  "less_eq_price_key x y \<longleftrightarrow> ordered_float_cmp (Rep_price_key x) (Rep_price_key y) \<noteq> Greater"

definition less_price_key :: "price_key \<Rightarrow> price_key \<Rightarrow> bool" where
  "less_price_key x y \<longleftrightarrow> ordered_float_cmp (Rep_price_key x) (Rep_price_key y) = Less"

instance
proof
  have key: "\<exists>a. Rep_price_key x = OrderedFloat a \<and> a \<noteq> NaN" for x
    using Rep_price_key [of x] by (auto intro: not_NaN_key)
  obtain kf where kf: "\<And>x. Rep_price_key x = OrderedFloat (kf x) \<and> kf x \<noteq> NaN"
    using key by metis
  have le': "x \<le> y \<longleftrightarrow> f64_key (kf x) \<le> f64_key (kf y)" for x y :: price_key
    using kf [of x] kf [of y] by (auto simp: less_eq_price_key_def f64_partial_cmp_key cmp_of_def)
  have lt': "x < y \<longleftrightarrow> f64_key (kf x) < f64_key (kf y)" for x y :: price_key
    using kf [of x] kf [of y] by (auto simp: less_price_key_def f64_partial_cmp_key cmp_of_def)
  have inj: "f64_key (kf x) = f64_key (kf y) \<longleftrightarrow> x = y" for x y :: price_key
    using kf [of x] kf [of y] f64_key_inj [of "kf x" "kf y"]
    by (metis Rep_price_key_inject)
  fix x y z :: price_key
  show "(x < y) = (x \<le> y \<and> \<not> y \<le> x)" by (auto simp: le' lt')
  show "x \<le> x" by (simp add: le')
  show "x \<le> y \<Longrightarrow> y \<le> z \<Longrightarrow> x \<le> z" by (simp add: le')
  show "x \<le> y \<Longrightarrow> y \<le> x \<Longrightarrow> x = y" by (simp add: le' flip: inj)
  show "x \<le> y \<or> y \<le> x" by (simp add: le' linear)
qed

end

lemma price_key_finite_less:
  "Abs_price_key (OrderedFloat (Fin a)) < Abs_price_key (OrderedFloat (Fin b)) \<longleftrightarrow> a < b"
  by (simp add: less_price_key_def Abs_price_key_inverse ordered_float_finite cmp_of_def)

end
