(* ===== verification/Spec2Isabelle.thy ===== *)
theory Spec2Isabelle
  imports SseServer WsServer PriceKey
begin

text \<open>
  \<^bold>\<open>A verification library for the market-data servers.\<close>

  The repository holds two Rust servers that keep simulated limit order books for a set of
  symbols and stream depth views of them to clients: \<^verbatim>\<open>src/backend-sse\<close> (server-sent
  events) and \<^verbatim>\<open>src/backend\<close> (WebSocket). Both are built from the same parts: an order
  book per symbol (\<^verbatim>\<open>order_book.rs\<close>) driven by a synthetic activity generator; a
  registry of clients, their delivery channels and their subscriptions
  (\<^verbatim>\<open>stream_manager.rs\<close>); two background loops, a 300 ms simulation tick that mutates
  every book and pushes each subscriber its view, and a 30 s heartbeat; and a protocol front
  end that registers a connection, subscribes it and drains its channel.
  This development models both servers. The WebSocket server's \<^verbatim>\<open>order_book.rs\<close> is
  not among the sources; the SSE book model stands for the calls its manager makes.

  \<^bold>\<open>Theories, and the code each one models.\<close>
  \<^item> \<open>Prelude\<close>: the types standing for Rust's (\<open>f64\<close> as \<open>real\<close>, \<open>u64\<close>/\<open>u32\<close> as
    \<open>64 word\<close>/\<open>32 word\<close>, times as \<open>int\<close> milliseconds, \<^verbatim>\<open>HashMap\<close>/\<^verbatim>\<open>DashMap\<close>
    as association lists in iteration order), the decimal rendering of \<open>format!\<close> and
    the map-entry push \<open>entry().or_insert_with(Vec::new).push(v)\<close>, with shared lemmas.
  \<^item> \<open>OrderedFloat\<close> and \<open>PriceKey\<close>: the ladder key \<^verbatim>\<open>OrderedFloat\<close> of
    \<^verbatim>\<open>order_book.rs\<close> over an \<open>f64\<close> with infinities and NaN, its \<^verbatim>\<open>Ord\<close>
    (\<open>partial_cmp\<close>, NaN mapped to \<open>Equal\<close>) and derived equality; the non-NaN keys as
    a type with a \<open>linorder\<close> instance, under which finite keys order as the reals that
    \<open>Ladder\<close> uses as keys.
  \<^item> \<open>Ladder\<close>: the per-side \<^verbatim>\<open>BTreeMap<OrderedFloat, Vec<String>>\<close> of
    \<^verbatim>\<open>order_book.rs\<close> as a strictly sorted association list (\<open>ladder_push\<close>,
    \<open>ladder_remove\<close>, first and last key), refined to a map from prices to FIFO queues.
  \<^item> \<open>OrderBook\<close>: \<^verbatim>\<open>Order\<close> and \<^verbatim>\<open>OrderBook\<close> as records and the mutators
    \<open>add_order\<close> (an upsert), \<open>remove_order\<close>, \<open>update_order\<close>, with the slot invariant
    \<open>book_inv\<close>: ladders well formed, index keys distinct, and the multiset of ladder slots
    equal to the multiset of (side, price, id) of the indexed orders.
  \<^item> \<open>Projection\<close>: the read-only views \<open>get_mbo_side\<close>/\<open>get_mbp_side\<close> (the loops with
    their \<open>u32\<close> level counter, \<open>u32\<close> row cap and \<open>u64\<close> running sum), best bid/ask and
    spread information.
  \<^item> \<open>Activity\<close>: \<open>generate_random_activity\<close>, \<open>execute_activity\<close>, the loop of
    \<open>simulate_activity\<close> and \<open>initialize_with_sample_data\<close>. The random generator is
    replaced by its outputs: a list of \<open>draw\<close> records, one per call, with
    \<open>gen_range(lo..=hi)\<close> a remainder into the range.
  \<^item> \<open>Channels\<close>: tokio's unbounded \<^verbatim>\<open>mpsc\<close> channels as an explicit store from
    channel names to (open flag, queue); \<open>send_msg\<close> appends or fails.
  \<^item> \<open>SseMessages\<close>: \<^verbatim>\<open>src/backend-sse/src/message.rs\<close>: data types,
    subscriptions, the pushed messages, and \<^verbatim>\<open>StreamQuery::parse_streams\<close> over ASCII
    strings, and the event framing \<^verbatim>\<open>to_sse_event\<close>/\<^verbatim>\<open>to_sse_data\<close>
    over serde's JSON result, with a reader of the server-sent-events format.
  \<^item> \<open>SseRegistry\<close>: \<^verbatim>\<open>SSEStreamManager\<close>'s maps and methods
    (\<open>initialize_symbol\<close>, \<open>register_client\<close>, \<open>unregister_client\<close>,
    \<open>subscribe_to_streams\<close>, \<open>remove_subscription\<close>, \<open>get_symbols\<close>,
    \<open>send_connection_info\<close>) and the registry invariant \<open>sse_inv\<close>.
  \<^item> \<open>SseServer\<close>: one tick of each background loop, \<^verbatim>\<open>sse_handler\<close> and
    \<^verbatim>\<open>SSEStream::poll_next\<close> of \<^verbatim>\<open>src/backend-sse/src/sse_handler.rs\<close>, and the
    server as a step function \<open>sse_exec\<close> over worlds (registry, channels, live streams)
    with its reachable worlds \<open>sse_reach\<close>.
  \<^item> \<open>WsMessages\<close>: \<^verbatim>\<open>src/backend/src/message.rs\<close>: client requests,
    server messages, the three-variant market-data payload and \<^verbatim>\<open>Subscription\<close>.
  \<^item> \<open>WsServer\<close>: \<^verbatim>\<open>StreamManager\<close> of \<^verbatim>\<open>src/backend/src/stream_manager.rs\<close>
    (\<open>ws_subscribe\<close>, \<open>ws_unsubscribe\<close>, \<open>ws_unregister_client\<close>, ...), its two
    loops, \<^verbatim>\<open>handle_message\<close> and the incoming loop of
    \<^verbatim>\<open>src/backend/src/websocket_handler.rs\<close>, and \<^verbatim>\<open>handle_connection\<close>'s
    two tasks (reader and writer of each connection) as events of a step function
    \<open>ws_exec\<close> with reachable worlds \<open>ws_reach\<close> and runs of event sequences
    \<open>ws_run\<close>. A frame is its decoded request or the decoder's error; the socket is the
    list \<open>wire\<close> of messages written.

  \<^bold>\<open>What is proved.\<close> Every mutator keeps \<open>book_inv\<close>; the upsert law and the
  sequence number's +1/+2 behaviour; the ladder operations refine map updates; the MBO loop
  equals a declarative cut of the levels, its depth bounds and the \<open>u32\<close> wrap of
  \<open>max_levels * 3\<close>; MBP rows are price-sorted aggregates with a running sum; best
  bid/ask are the extremes. The generator: on an empty book it returns exactly when a draw
  selects the new-order branch; with eight resting orders and eight draws
  \<open>simulate_activity\<close> returns; generated fields are in range; \<open>execute_activity\<close>
  applies each activity by its type (an add rests with its values at its side and price, an
  update sets the quantity, a zero update or a cancel removes the id); the sample book has 60 orders, best bid 99.95 and best ask 100.
  The registry: derived stream ids are injective, \<open>unregister_client\<close> removes exactly the
  client's subscriptions and is idempotent, subscribing pushes exactly one snapshot, every
  operation keeps \<open>sse_inv\<close> (registration only for fresh ids; a reused id is a
  counterexample). The server: \<open>sse_inv\<close> holds in every reachable world; no reachable
  event ever removes a client (the unregistration path is dead code); ticks never write to a
  channel no registered client owns, and deliver to each open channel exactly its views.
  \<^verbatim>\<open>OrderedFloat\<close>'s order is lawful exactly without NaN and is the order of the
  reals on finite keys; an SSE frame reads back as its
  event name and JSON text. The WebSocket server: the first message on every client's socket
  is the welcome heartbeat; every registered client has a live reader, a live writer and an open
  channel in every reachable world, so \<open>subscribe\<close> never fails there (its 500 path is
  dead); after a client's incoming loop ends, no sequence of ticks writes to its channel; a
  subscription is acknowledged by the snapshot and then \<open>Subscribed\<close>, in that order;
  \<open>unsubscribe\<close> stops at the first symbol and never prunes (a divergence from the
  spec); \<open>unregister_client\<close> cascades exactly.

  \<^bold>\<open>Bounds and fuel.\<close> Nothing runs on fuel. The generator's self-recursion is structural
  recursion on the draw list, so a run without enough draws is \<open>None\<close>, the value of a call
  that never returns; its termination is proved as a condition on the draws. The simulation
  tick is \<open>None\<close> when some book's simulation does not return. Eight orders and eight draws
  suffice for \<open>simulate_activity\<close> because each activity removes at most one order and at
  most eight activities run.

  \<^bold>\<open>Simplifications.\<close> Prices in the ladders and views are exact reals, with no
  rounding error; \<open>OrderedFloat\<close> shows that this is its order on finite keys, and that
  NaN, which the generator never produces, would break it; \<^verbatim>\<open>Utc::now()\<close> is one argument
  per operation; each registry method and each tick runs atomically (the per-entry
  \<^verbatim>\<open>DashMap\<close> locks and the awaits inside \<open>subscribe_to_streams\<close> and
  \<open>subscribe\<close> are not interleaved; a \<^verbatim>\<open>DashMap\<close> reference held across a send
  blocks the removal of that entry, which is what makes the atomic view faithful); strings are byte strings and the query is ASCII.

  \<^bold>\<open>Not modelled.\<close> JSON encoding (serde), the axum and tungstenite I/O, logging, command
  line and router set-up (\<^verbatim>\<open>main.rs\<close>, \<^verbatim>\<open>lib.rs\<close>): they hold no state of the core.
  The WebSocket server's order book module is not in the sources; its manager is verified
  against the SSE book model. The \<^verbatim>\<open>activity_broadcast\<close> channel has no receiver
  (its only one is dropped in \<^verbatim>\<open>new\<close>), so it holds no state and is not modelled.
  Serde's error texts are opaque strings.
\<close>

end
